theory Spec2Isabelle
  imports Main
begin

section \<open>Strings and the regular expressions of the source\<close>

text \<open>
  A Python \<open>str\<close> is modelled as a \<open>string\<close> whose characters are the code points
  below 256.  On that range \<open>\d\<close> matches exactly the ten ASCII digits and
  \<open>str.isspace\<close> holds exactly for the code points listed in \<open>is_space\<close>.
\<close>

definition is_digit :: "char \<Rightarrow> bool" where
  "is_digit c = (c \<in> set ''0123456789'')"

definition is_space :: "char \<Rightarrow> bool" where
  "is_space c = (of_char c \<in> set [9, 10, 11, 12, 13, 28, 29, 30, 31, 32, 133, 160 :: nat])"

text \<open>\<open>str.strip()\<close> without argument: leading and trailing white space is dropped.\<close>

definition strip :: "string \<Rightarrow> string" where
  "strip s = rev (dropWhile is_space (rev (dropWhile is_space s)))"

text \<open>\<open>starts_with p s\<close>: the literal \<open>p\<close> matches at the start of \<open>s\<close>.\<close>

fun starts_with :: "string \<Rightarrow> string \<Rightarrow> bool" where
  "starts_with [] s = True"
| "starts_with (p # ps) [] = False"
| "starts_with (p # ps) (c # s) = (p = c \<and> starts_with ps s)"

text \<open>\<open>old in s\<close> for strings: \<open>old\<close> occurs somewhere in \<open>s\<close>.\<close>

fun contains :: "string \<Rightarrow> string \<Rightarrow> bool" where
  "contains old [] = (old = [])"
| "contains old (c # s) = (starts_with old (c # s) \<or> contains old s)"

text \<open>
  \<open>s.replace(old, new)\<close>: every occurrence of \<open>old\<close>, found from left to right
  without overlap, is replaced; an empty \<open>old\<close> matches before every character and at
  the end.
\<close>

function replace_nonempty :: "string \<Rightarrow> string \<Rightarrow> string \<Rightarrow> string" where
  "replace_nonempty old new s =
     (if old = [] \<or> s = [] then s
      else if starts_with old s then new @ replace_nonempty old new (drop (length old) s)
      else hd s # replace_nonempty old new (tl s))"
  by pat_completeness auto
termination
  by (relation "measure (\<lambda>(old, new, s). length s)") auto

declare replace_nonempty.simps [simp del]

definition replace :: "string \<Rightarrow> string \<Rightarrow> string \<Rightarrow> string" where
  "replace old new s =
     (if old = [] then new @ concat (map (\<lambda>c. c # new) s) else replace_nonempty old new s)"

text \<open>
  The regular expression \<open><sql\d+>\<close> (and, with \<open>pre = ''</sql''\<close>, the closing
  \<open><\/sql\d+>\<close>) tried at the start of \<open>s\<close>: the digits matched and the rest of
  the input after the match.  \<open>\d+\<close> is greedy, and giving digits back cannot help
  because a \<open>>\<close> has to follow.
\<close>

definition match_tag :: "string \<Rightarrow> string \<Rightarrow> (string \<times> string) option" where
  "match_tag pre s =
     (if starts_with pre s then
        (let r = drop (length pre) s; ds = takeWhile is_digit r in
         (case dropWhile is_digit r of
            c # r' \<Rightarrow> if ds \<noteq> [] \<and> c = CHR ''>'' then Some (ds, r') else None
          | [] \<Rightarrow> None))
      else None)"

definition match_open :: "string \<Rightarrow> (string \<times> string) option" where
  "match_open = match_tag ''<sql''"

definition match_close :: "string \<Rightarrow> (string \<times> string) option" where
  "match_close = match_tag ''</sql''"

text \<open>
  The lazy group \<open>(.*?)\<close> followed by \<open><\/sql\d+>\<close>, in DOTALL mode: the body is
  extended one character at a time until a closing tag matches; the result is the body and
  the input after the closing tag, or \<open>None\<close> when no closing tag follows.
\<close>

fun find_close :: "string \<Rightarrow> (string \<times> string) option" where
  "find_close [] = None"
| "find_close (c # s) =
     (case match_close (c # s) of
        Some (ds, r) \<Rightarrow> Some ([], r)
      | None \<Rightarrow> (case find_close s of
                  Some (body, r) \<Rightarrow> Some (c # body, r)
                | None \<Rightarrow> None))"

text \<open>
  One attempt of \<open>(<sql\d+>(.*?)<\/sql\d+>)\<close> at the start of \<open>s\<close>: the two groups
  (the whole match and the body) and the rest of the input.
\<close>

definition match_component :: "string \<Rightarrow> ((string \<times> string) \<times> string) option" where
  "match_component s =
     (case match_open s of
        None \<Rightarrow> None
      | Some (ds, r) \<Rightarrow>
          (case find_close r of
             None \<Rightarrow> None
           | Some (body, r') \<Rightarrow> Some ((take (length s - length r') s, body), r')))"

lemma match_tag_length: "match_tag pre s = Some (ds, r) \<Longrightarrow> length r < length s"
proof -
  assume m: "match_tag pre s = Some (ds, r)"
  then obtain c where c: "dropWhile is_digit (drop (length pre) s) = c # r"
    by (auto simp: match_tag_def Let_def split: if_splits list.splits)
  have "length (dropWhile is_digit (drop (length pre) s)) \<le> length (drop (length pre) s)"
    by (rule length_dropWhile_le)
  with c show ?thesis by simp
qed

lemma find_close_length: "find_close s = Some (body, r) \<Longrightarrow> length r < length s"
proof (induction s arbitrary: body)
  case Nil
  then show ?case by simp
next
  case (Cons c s)
  show ?case
  proof (cases "match_close (c # s)")
    case None
    with Cons.prems obtain b where "find_close s = Some (b, r)"
      by (auto split: option.splits)
    then have "length r < length s" by (rule Cons.IH)
    then show ?thesis by simp
  next
    case (Some p)
    with Cons.prems have "match_tag ''</sql'' (c # s) = Some (fst p, r)"
      by (cases p) (auto simp: match_close_def)
    then show ?thesis by (rule match_tag_length)
  qed
qed

lemma match_component_length:
  "match_component s = Some (groups, r) \<Longrightarrow> length r < length s"
proof -
  assume "match_component s = Some (groups, r)"
  then obtain ds r0 body where o: "match_open s = Some (ds, r0)"
    and f: "find_close r0 = Some (body, r)"
    by (auto simp: match_component_def split: option.splits)
  from o have "length r0 < length s"
    unfolding match_open_def by (rule match_tag_length)
  moreover from f have "length r < length r0" by (rule find_close_length)
  ultimately show ?thesis by simp
qed

text \<open>
  \<open>re.findall\<close>: the matches are found from left to right without overlap; where no
  match starts, the scan moves on by one character.
\<close>

function findall_components :: "string \<Rightarrow> (string \<times> string) list" where
  "findall_components s =
     (case match_component s of
        Some (groups, r) \<Rightarrow> groups # findall_components r
      | None \<Rightarrow> (case s of [] \<Rightarrow> [] | c # s' \<Rightarrow> findall_components s'))"
  by pat_completeness auto
termination
  by (relation "measure length") (auto dest: match_component_length)

declare findall_components.simps [simp del]

text \<open>\<open>re.search(r"<(sql\d+)>", s)\<close>: group 1 of the leftmost match, if any.\<close>

fun search_tag :: "string \<Rightarrow> string option" where
  "search_tag [] = None"
| "search_tag (c # s) =
     (case match_open (c # s) of
        Some (ds, r) \<Rightarrow> Some (''sql'' @ ds)
      | None \<Rightarrow> search_tag s)"

section \<open>The view-lineage resolver: \<open>text2sql.py\<close>\<close>

datatype error =
    ValueError
  | AttributeError
  | IndexError
  | DatabaseError string

text \<open>
  A Python \<open>dict\<close> is an association list in insertion order; \<open>d[k] = v\<close> replaces
  the value of a key that is present, in place, and appends a new key at the end.
\<close>

fun dict_set :: "('k \<times> 'v) list \<Rightarrow> 'k \<Rightarrow> 'v \<Rightarrow> ('k \<times> 'v) list" where
  "dict_set [] k v = [(k, v)]"
| "dict_set (p # ps) k v = (if fst p = k then (k, v) # ps else p # dict_set ps k v)"

text \<open>The body of the loop of \<open>parse_sqls\<close>, for one pair of groups.\<close>

definition add_component ::
    "(string \<times> string) list \<Rightarrow> string \<times> string \<Rightarrow> (string \<times> string) list" where
  "add_component sql_dict sql_pair =
     (case sql_pair of (sql_with_tag, sql) \<Rightarrow>
        (case search_tag sql_with_tag of
           Some k \<Rightarrow> dict_set sql_dict k (strip (replace '';'' [] sql))
         | None \<Rightarrow> sql_dict))"

definition parse_sqls :: "string \<Rightarrow> error + (string \<times> string) list" where
  "parse_sqls message =
     (let sql_components = findall_components message in
      if sql_components = [] then Inl ValueError
      else Inr (foldl add_component [] sql_components))"

text \<open>
  One attempt of \<open>\({0,1}<sql\d+>\){0,1}\<close> at the start of \<open>s\<close>: the matched text and
  the rest.  Both optional parentheses are greedy; an opening parenthesis that is not
  followed by a tag cannot be given back, since the tag starts with \<open><\<close>.
\<close>

definition match_ref :: "string \<Rightarrow> (string \<times> string) option" where
  "match_ref s =
     (let r0 = (if starts_with ''('' s then drop 1 s else s) in
      (case match_open r0 of
         None \<Rightarrow> None
       | Some (ds, r) \<Rightarrow>
           (let r' = (if starts_with '')'' r then drop 1 r else r) in
            Some (take (length s - length r') s, r'))))"

lemma match_ref_length: "match_ref s = Some (t, r) \<Longrightarrow> length r < length s"
proof -
  assume m: "match_ref s = Some (t, r)"
  define r0 where "r0 = (if starts_with ''('' s then drop 1 s else s)"
  from m obtain ds r1 where o: "match_open r0 = Some (ds, r1)"
    and r: "r = (if starts_with '')'' r1 then drop 1 r1 else r1)"
    by (auto simp: match_ref_def Let_def r0_def split: option.splits)
  from o have "length r1 < length r0"
    unfolding match_open_def by (rule match_tag_length)
  moreover have "length r0 \<le> length s" by (simp add: r0_def)
  moreover have "length r \<le> length r1" by (simp add: r)
  ultimately show ?thesis by simp
qed

function findall_refs :: "string \<Rightarrow> string list" where
  "findall_refs s =
     (case match_ref s of
        Some (t, r) \<Rightarrow> t # findall_refs r
      | None \<Rightarrow> (case s of [] \<Rightarrow> [] | c # s' \<Rightarrow> findall_refs s'))"
  by pat_completeness auto
termination
  by (relation "measure length") (auto dest: match_ref_length)

declare findall_refs.simps [simp del]

text \<open>The slice \<open>tag[1:-1]\<close>.\<close>

definition slice_1_m1 :: "string \<Rightarrow> string" where
  "slice_1_m1 t = drop 1 (take (length t - 1) t)"

definition replace_tag_with_table :: "string \<Rightarrow> string" where
  "replace_tag_with_table sql =
     foldl (\<lambda>sql tag. replace tag (''(SELECT * FROM '' @ slice_1_m1 tag @ '')'') sql)
       sql (findall_refs sql)"

text \<open>
  \<open>int(x[3:])\<close> on a string of decimal digits.  Anything else is reported as
  \<open>ValueError\<close> (\<open>None\<close>); the keys of the dictionary built by \<open>parse_sqls\<close> are
  \<open>sql\<close> followed by digits, so \<open>int\<close> is only ever applied to digits.  The
  interpreter refuses to convert a string of more than \<open>sys.get_int_max_str_digits()\<close>
  digits (4300 unless configured otherwise; 0 switches the limit off, and an interpreter
  without the limit behaves as with 0): \<open>int\<close> raises \<open>ValueError\<close> then.  The limit
  is the parameter \<open>max_str_digits\<close>; the interpreter accepts 0 or a value of at
  least 640 for it.
\<close>

definition digit_val :: "char \<Rightarrow> int" where
  "digit_val c = int (of_char c) - 48"

definition py_int :: "nat \<Rightarrow> string \<Rightarrow> int option" where
  "py_int max_str_digits s =
     (if s = [] \<or> \<not> list_all is_digit s then None
      else if 0 < max_str_digits \<and> max_str_digits < length s then None
      else Some (foldl (\<lambda>n c. 10 * n + digit_val c) 0 s))"

text \<open>
  \<open>max(xs, key=f)\<close>: the first element whose key is largest; \<open>max_from\<close> is the
  loop with the best element so far.
\<close>

fun max_from :: "('a \<Rightarrow> int) \<Rightarrow> 'a \<Rightarrow> 'a list \<Rightarrow> 'a" where
  "max_from f best [] = best"
| "max_from f best (x # xs) = max_from f (if f best < f x then x else best) xs"

definition largest_key :: "nat \<Rightarrow> string list \<Rightarrow> error + string" where
  "largest_key max_str_digits ks =
     (case ks of
        [] \<Rightarrow> Inl ValueError
      | k # ks' \<Rightarrow>
          if list_all (\<lambda>x. py_int max_str_digits (drop 3 x) \<noteq> None) ks
          then Inr (max_from (\<lambda>x. the (py_int max_str_digits (drop 3 x))) k ks')
          else Inl ValueError)"

text \<open>
  Modelled from the spec: the class \<open>AgentMessage\<close> (\<open>meadow.agent.schema\<close>) is not
  among the source files.  The record has the fields the two agents set; a flag that a
  constructor call does not set is \<open>False\<close>, an optional text or name is \<open>None\<close>.
  \<open>new_message\<close> is a constructor call that passes \<open>sending_agent=\<close>, as the schema
  cleaner does; \<open>generated_message\<close> is one that passes \<open>generating_agent=\<close>, as the
  SQL generator does.
\<close>

record agent_message =
  role :: string
  content :: string
  display_content :: "string option"
  sending_agent :: "string option"
  generating_agent :: "string option"
  receiving_agent :: "string option"
  is_termination_message :: bool
  requires_response :: bool
  requires_execution :: bool

definition new_message :: "string \<Rightarrow> string \<Rightarrow> string \<Rightarrow> agent_message" where
  "new_message r c a =
     \<lparr>role = r, content = c, display_content = None, sending_agent = Some a,
      generating_agent = None, receiving_agent = None, is_termination_message = False,
      requires_response = False, requires_execution = False\<rparr>"

definition generated_message :: "string \<Rightarrow> string \<Rightarrow> string \<Rightarrow> agent_message" where
  "generated_message r c a =
     \<lparr>role = r, content = c, display_content = None, sending_agent = None,
      generating_agent = Some a, receiving_agent = None, is_termination_message = False,
      requires_response = False, requires_execution = False\<rparr>"

text \<open>
  Modelled from the spec: the class \<open>Database\<close> (\<open>meadow.database.database\<close>), the
  Schema Store, is not among the source files.  A store holds the base tables with their
  canonical column names, the foreign-key edges between (table, column) pairs, the
  column remaps (table, canonical column, display name) and the registered views with
  their \<open>view_sql\<close>.  The remaps are of two kinds: \<open>committed_remaps\<close> are those of
  the last successful commit, and \<open>remaps\<close> are the provisional ones applied since.
  No operation that the source calls moves a remap from the second kind to the first.
\<close>

record database =
  base_tables :: "(string \<times> string list) list"
  foreign_keys :: "((string \<times> string) \<times> (string \<times> string)) list"
  committed_remaps :: "(string \<times> string \<times> string) list"
  remaps :: "(string \<times> string \<times> string) list"
  views :: "(string \<times> string) list"

record table =
  tbl_name :: string
  view_sql :: "string option"

text \<open>
  Modelled from the spec: \<open>get_table\<close> is the store's \<open>resolve\<close>; it finds a
  registered view or a base table by name and is \<open>None\<close> for an unknown name.
\<close>

definition get_table :: "database \<Rightarrow> string \<Rightarrow> table option" where
  "get_table db k =
     (case map_of (views db) k of
        Some q \<Rightarrow> Some \<lparr>tbl_name = k, view_sql = Some q\<rparr>
      | None \<Rightarrow>
          (case map_of (base_tables db) k of
             Some cols \<Rightarrow> Some \<lparr>tbl_name = k, view_sql = None\<rparr>
           | None \<Rightarrow> None))"

text \<open>
  What the agent obtains from outside the repository: the SQL library (\<open>sqlglot\<close>,
  which formats a query or raises, and which the store uses to normalize a query and to
  read off the tables a query refers to) and the query engine (the preview of a query,
  or an execution error).  \<open>None\<close> and \<open>Inl\<close> stand for a raised exception.
  \<open>int_max_str_digits\<close> is the interpreter's limit on the digits \<open>int\<close> converts.
\<close>

record externals =
  parse_pretty :: "string \<Rightarrow> string option"
  normalize_query :: "database \<Rightarrow> string \<Rightarrow> error + string"
  referenced :: "string \<Rightarrow> string list"
  run_sql_to_df :: "database \<Rightarrow> string \<Rightarrow> string option"
  int_max_str_digits :: nat

text \<open>
  Modelled from the spec: \<open>add_view\<close> is the store's \<open>registerView\<close>.  The query may
  refer to known tables and views only (\<open>UnknownReferenceError\<close> otherwise); a name
  registered with the same query is left as it is, a name registered with another query
  is refused, and a new name is added to the views.
\<close>

definition add_view :: "externals \<Rightarrow> database \<Rightarrow> string \<Rightarrow> string \<Rightarrow> error + database" where
  "add_view X db k q =
     (if \<not> list_all (\<lambda>r. get_table db r \<noteq> None) (referenced X q)
      then Inl (DatabaseError ''UnknownReferenceError'')
      else (case map_of (views db) k of
              Some q' \<Rightarrow> if q' = q then Inr db else Inl (DatabaseError ''AlreadyRegistered'')
            | None \<Rightarrow> Inr (db\<lparr>views := views db @ [(k, q)]\<rparr>)))"

text \<open>
  Modelled from the spec: \<open>has_termination_condition\<close> (\<open>meadow.agent.utils\<close>) is not
  among the source files; the termination token is recognized verbatim anywhere in the
  output.
\<close>

definition has_termination_condition :: "string \<Rightarrow> string \<Rightarrow> bool" where
  "has_termination_condition c termination_message = contains termination_message c"

definition prettify_sql :: "externals \<Rightarrow> string \<Rightarrow> string" where
  "prettify_sql X sql = (case parse_pretty X sql of Some pretty \<Rightarrow> pretty | None \<Rightarrow> sql)"

text \<open>
  The loop over \<open>sql_dict.items()\<close> in \<open>generate_reply\<close>.  A tag that the store
  already knows is skipped (the source prints a line when the texts differ and goes on);
  a new tag is rewritten, normalized and registered.  An exception leaves the loop with
  the views registered so far.
\<close>

fun register_views ::
    "externals \<Rightarrow> database \<Rightarrow> (string \<times> string) list \<Rightarrow> error option \<times> database" where
  "register_views X db [] = (None, db)"
| "register_views X db ((k, v) # items) =
     (case get_table db k of
        Some view_table \<Rightarrow> register_views X db items
      | None \<Rightarrow>
          (case normalize_query X db (replace_tag_with_table v) of
             Inl e \<Rightarrow> (Some e, db)
           | Inr v' \<Rightarrow>
               (case add_view X db k v' of
                  Inl e \<Rightarrow> (Some e, db)
                | Inr db' \<Rightarrow> register_views X db' items)))"

text \<open>
  What follows the loop: the view of the largest tag is formatted, run for a preview
  (an execution error only drops the preview) and shown.  A table without
  \<open>view_sql\<close> makes the formatter and the engine fail on \<open>None\<close>, so that \<open>None\<close>
  is shown without preview.
\<close>

definition user_content :: "externals \<Rightarrow> database \<Rightarrow> string option \<Rightarrow> string" where
  "user_content X db q =
     (case q of
        None \<Rightarrow> ''SQL:'' @ [CHR 0x0A] @ ''None''
      | Some sql \<Rightarrow>
          (let last_sql = prettify_sql X sql in
           ''SQL:'' @ [CHR 0x0A] @ last_sql @
           (case run_sql_to_df X db last_sql of
              None \<Rightarrow> []
            | Some df \<Rightarrow> [CHR 0x0A, CHR 0x0A] @ ''Table:'' @ [CHR 0x0A] @ df)))"

text \<open>
  \<open>SQLGeneratorAgent.generate_reply\<close>, from the model's output \<open>c\<close> on: the reply (or
  the exception raised) and the store afterwards.
\<close>

definition generate_reply ::
    "externals \<Rightarrow> string \<Rightarrow> database \<Rightarrow> string \<Rightarrow> (error + agent_message) \<times> database" where
  "generate_reply X termination_message db c =
     (if has_termination_condition c termination_message
      then (Inr ((generated_message ''assistant'' c ''SQLGenerator'')
                   \<lparr>is_termination_message := True\<rparr>), db)
      else
        (case parse_sqls c of
           Inl e \<Rightarrow> (Inl e, db)
         | Inr sql_dict \<Rightarrow>
             (case largest_key (int_max_str_digits X) (map fst sql_dict) of
                Inl e \<Rightarrow> (Inl e, db)
              | Inr largest_k \<Rightarrow>
                  (case register_views X db sql_dict of
                     (Some e, db') \<Rightarrow> (Inl e, db')
                   | (None, db') \<Rightarrow>
                       (case get_table db' largest_k of
                          None \<Rightarrow> (Inl AttributeError, db')
                        | Some t \<Rightarrow>
                            (Inr ((generated_message ''assistant'' c ''SQLGenerator'')
                                    \<lparr>display_content :=
                                       Some (user_content X db' (view_sql t))\<rparr>),
                             db'))))))"

section \<open>The commit function of the schema cleaner: \<open>schema_renamer.py\<close>\<close>

text \<open>
  \<open>re.findall(r"```json\n(.*?)\n```", content, re.DOTALL)\<close>: the bodies of the fenced
  blocks, from left to right.  \<open>find_fence_end\<close> is the lazy body up to the first
  line that closes the fence.
\<close>

definition fence_open :: string where
  "fence_open = ''```json'' @ [CHR 0x0A]"

definition fence_close :: string where
  "fence_close = [CHR 0x0A] @ ''```''"

fun find_fence_end :: "string \<Rightarrow> (string \<times> string) option" where
  "find_fence_end [] = None"
| "find_fence_end (c # s) =
     (if starts_with fence_close (c # s) then Some ([], drop (length fence_close) (c # s))
      else (case find_fence_end s of
              Some (body, r) \<Rightarrow> Some (c # body, r)
            | None \<Rightarrow> None))"

lemma find_fence_end_length: "find_fence_end s = Some (body, r) \<Longrightarrow> length r < length s"
proof (induction s arbitrary: body)
  case Nil
  then show ?case by simp
next
  case (Cons c s)
  show ?case
  proof (cases "starts_with fence_close (c # s)")
    case True
    with Cons.prems show ?thesis by (auto simp: fence_close_def)
  next
    case False
    with Cons.prems obtain b where "find_fence_end s = Some (b, r)"
      by (auto split: option.splits)
    then have "length r < length s" by (rule Cons.IH)
    then show ?thesis by simp
  qed
qed

function findall_fences :: "string \<Rightarrow> string list" where
  "findall_fences s =
     (case (if starts_with fence_open s then find_fence_end (drop (length fence_open) s)
            else None) of
        Some (body, r) \<Rightarrow> body # findall_fences r
      | None \<Rightarrow> (case s of [] \<Rightarrow> [] | c # s' \<Rightarrow> findall_fences s'))"
  by pat_completeness auto
termination
  by (relation "measure length") (auto split: if_splits dest: find_fence_end_length)

declare findall_fences.simps [simp del]

text \<open>
  The remap payload has the type the source annotates, \<open>dict[str, dict[str, str]]\<close>: an
  association list from table names to column maps.  \<open>json.loads\<close> is the standard
  library's; it is a parameter that yields the payload or the text of the
  \<open>JSONDecodeError\<close>.  The rendering of the foreign-key pairs in a message is a
  parameter as well.
\<close>

type_synonym column_map = "(string \<times> string) list"

type_synonym remapping = "(string \<times> column_map) list"

type_synonym fk_edge = "(string \<times> string) \<times> (string \<times> string)"

record renamer_externals =
  json_loads :: "string \<Rightarrow> string + remapping"
  repr_fks :: "fk_edge list \<Rightarrow> string"

text \<open>
  The variable \<open>content\<close> holds the message text first and the decoded payload after a
  successful \<open>json.loads\<close>; \<open>.items()\<close> exists on the payload only.
\<close>

datatype content_value = Text string | Payload remapping

definition items :: "content_value \<Rightarrow> error + remapping" where
  "items c = (case c of Text s \<Rightarrow> Inl AttributeError | Payload d \<Rightarrow> Inr d)"

text \<open>\<open>if error_message\<close>: \<open>None\<close> and the empty string are false.\<close>

definition truthy :: "string option \<Rightarrow> bool" where
  "truthy m = (case m of None \<Rightarrow> False | Some s \<Rightarrow> s \<noteq> [])"

text \<open>The inner loop that looks for the first value seen before.\<close>

fun first_duplicate :: "string list \<Rightarrow> string list \<Rightarrow> string option" where
  "first_duplicate seen [] = None"
| "first_duplicate seen (v # vs) =
     (if v \<in> set seen then Some v else first_duplicate (v # seen) vs)"

definition duplicate_message :: "string \<Rightarrow> string \<Rightarrow> string" where
  "duplicate_message v tbl =
     ''Duplicate column name '' @ [CHR 0x27] @ v @ [CHR 0x27] @ '' found in table '' @
     [CHR 0x27] @ tbl @ [CHR 0x27] @ ''.''"

text \<open>The first loop over \<open>content.items()\<close>, one table at a time.\<close>

definition check_table :: "string option \<Rightarrow> string \<times> column_map \<Rightarrow> string option" where
  "check_table error_message entry =
     (case entry of (tbl, col_map) \<Rightarrow>
        (let vals = map snd col_map in
         if length (remdups vals) \<noteq> length vals then
           (case first_duplicate [] vals of
              Some v \<Rightarrow> Some (duplicate_message v tbl)
            | None \<Rightarrow> error_message)
         else error_message))"

text \<open>
  Modelled from the spec: the store's \<open>applyColumnRemap\<close>
  (\<open>add_base_table_column_remap\<close>) records the remap of a known table and fails with
  \<open>InvalidRemapError\<close> for an unknown one; \<open>discardPendingRemaps\<close>
  (\<open>remove_base_table_remaps\<close>) drops every provisional remap and leaves the
  committed ones; the display name of a column is given by the latest provisional remap
  recorded for it, else by the latest committed one, and is its canonical name without
  any; \<open>checkForeignKeyConsistency\<close> (\<open>get_non_matching_fks\<close> over
  \<open>database.tables\<close>) lists the foreign-key edges whose two ends differ in display
  name.
\<close>

definition add_base_table_column_remap ::
    "database \<Rightarrow> string \<Rightarrow> column_map \<Rightarrow> string + database" where
  "add_base_table_column_remap db t m =
     (if map_of (base_tables db) t = None then Inl ''InvalidRemapError''
      else Inr (db\<lparr>remaps := map (\<lambda>(k, v). (t, k, v)) m @ remaps db\<rparr>))"

definition remove_base_table_remaps :: "database \<Rightarrow> database" where
  "remove_base_table_remaps db = db\<lparr>remaps := []\<rparr>"

definition display_name :: "database \<Rightarrow> string \<Rightarrow> string \<Rightarrow> string" where
  "display_name db t c =
     (case find (\<lambda>(t', c', d). t' = t \<and> c' = c) (remaps db @ committed_remaps db) of
        Some (t', c', d) \<Rightarrow> d
      | None \<Rightarrow> c)"


definition get_non_matching_fks :: "database \<Rightarrow> fk_edge list" where
  "get_non_matching_fks db =
     filter (\<lambda>((t1, c1), (t2, c2)). display_name db t1 c1 \<noteq> display_name db t2 c2)
       (foreign_keys db)"

text \<open>
  The second loop: a table whose map changes some name is remapped; the first exception
  sets the error message and leaves the loop, with the remaps recorded so far.
\<close>

fun apply_remaps :: "database \<Rightarrow> remapping \<Rightarrow> string option \<times> database" where
  "apply_remaps db [] = (None, db)"
| "apply_remaps db ((table_name, column_mapping) # rest) =
     (if list_ex (\<lambda>(k, v). k \<noteq> v) column_mapping then
        (case add_base_table_column_remap db table_name column_mapping of
           Inl e \<Rightarrow>
             (Some (''Error adding the column remapping for table '' @ table_name @ ''.'' @
                    [CHR 0x0A] @ e), db)
         | Inr db' \<Rightarrow> apply_remaps db' rest)
      else apply_remaps db rest)"

definition fk_message :: "renamer_externals \<Rightarrow> fk_edge list \<Rightarrow> string" where
  "fk_message X non_match_pairs =
     ''The following FKs do not match:'' @ [CHR 0x0A] @ repr_fks X non_match_pairs @
     [CHR 0x0A] @ ''This may be ineviatable and'' @
     '' if so, do not worry about changing anything and output the same remapping. Otherwise, please rename.''"

text \<open>
  The text handed to \<open>json.loads\<close>: the body of the last fenced block when the
  message has the fence marker (\<open>[-1]\<close> raises \<open>IndexError\<close> when no block is
  found), the whole message otherwise.
\<close>

definition json_content_of :: "string \<Rightarrow> error + string" where
  "json_content_of c =
     (if contains ''```json'' c
      then (case findall_fences c of [] \<Rightarrow> Inl IndexError | fs \<Rightarrow> Inr (last fs))
      else Inr c)"

text \<open>
  \<open>parse_rename_and_update_db\<close>: the reply and the store afterwards, or the exception
  that leaves the function.  The exceptions that are not caught (\<open>IndexError\<close> from
  \<open>messages[-1]\<close> or from \<open>[-1]\<close> on an empty list of fenced blocks,
  \<open>AttributeError\<close> from \<open>.items()\<close> on the text) are raised before the store is
  touched.
\<close>

definition parse_rename_and_update_db ::
    "renamer_externals \<Rightarrow> agent_message list \<Rightarrow> string \<Rightarrow> database \<Rightarrow> bool \<Rightarrow>
     error + (agent_message \<times> database)" where
  "parse_rename_and_update_db X messages agent_name db can_reask_again =
     (if messages = [] then Inl IndexError
      else
        (let c = content (last messages) in
         (case json_content_of c of
            Inl e \<Rightarrow> Inl e
          | Inr json_content \<Rightarrow>
              (let (c', em0) =
                     (case json_loads X json_content of
                        Inr d \<Rightarrow> (Payload d, None)
                      | Inl e \<Rightarrow>
                          (Text c,
                           Some (''The content is not a valid JSON object.'' @ [CHR 0x0A] @ e)))
               in
               (case items c' of
                  Inl e \<Rightarrow> Inl e
                | Inr its \<Rightarrow>
                    (let em1 = foldl check_table em0 its;
                         (em2, db2) = (if \<not> truthy em1 then apply_remaps db its else (em1, db));
                         em3 = (if \<not> truthy em2 then
                                  (let non_match_pairs = get_non_matching_fks db2 in
                                   if non_match_pairs \<noteq> [] then Some (fk_message X non_match_pairs)
                                   else em2)
                                else em2)
                     in
                     if truthy em3 then
                       Inr ((new_message ''assistant''
                               (the em3 @ '' Please regenerate mapping and try again.'') agent_name)
                              \<lparr>requires_response := True\<rparr>,
                            remove_base_table_remaps db2)
                     else
                       Inr (new_message ''assistant'' ''The schema has been updated.'' agent_name,
                            db2)))))))"

section \<open>The agent communication layer\<close>

text \<open>
  Modelled from the spec: the class \<open>MessageHistory\<close>
  (\<open>meadow.history.message_history\<close>) is not among the source files.  It holds, for
  each communication partner (here the partner's name), the ordered sequence of the
  messages exchanged with it; \<open>add_message\<close> appends the message under the given role,
  and \<open>get_messages\<close> hands the partner's sequence to the owning agent by reference,
  so that what the agent writes into a message of that list is written into the history.
\<close>

type_synonym message_history = "string \<Rightarrow> agent_message list"

definition add_message ::
    "message_history \<Rightarrow> string \<Rightarrow> string \<Rightarrow> agent_message \<Rightarrow> message_history" where
  "add_message h agent r message = h(agent := h agent @ [message\<lparr>role := r\<rparr>])"

definition get_messages :: "message_history \<Rightarrow> string \<Rightarrow> agent_message list" where
  "get_messages h agent = h agent"

text \<open>
  The state of an agent: its history (\<open>self._messages\<close>) and the store it refers to
  (\<open>self._database\<close>).  The completion service and the serializer of the schema
  (\<open>serialize_as_list\<close>, not among the source files) are parameters: the text the
  model returns for the store and the messages it is given, and the text of the schema.
\<close>

record agent_state =
  agent_messages :: message_history
  agent_database :: database

record llm_externals =
  completion :: "database \<Rightarrow> agent_message list \<Rightarrow> string"
  serialize_as_list :: "database \<Rightarrow> string"

text \<open>
  \<open>send\<close> of either agent, up to the call of the recipient's \<open>receive\<close>, which runs
  the other agent: an absent message raises \<open>ValueError\<close>; otherwise the message is
  appended to the history kept for the recipient.  The schema cleaner first writes the
  recipient's name into the message.
\<close>

definition sql_send ::
    "agent_state \<Rightarrow> agent_message option \<Rightarrow> string \<Rightarrow> error option \<times> agent_state" where
  "sql_send st message recipient =
     (case message of
        None \<Rightarrow> (Some ValueError, st)
      | Some m \<Rightarrow>
          (None, st\<lparr>agent_messages :=
                     add_message (agent_messages st) recipient ''assistant'' m\<rparr>))"

definition renamer_send ::
    "agent_state \<Rightarrow> agent_message option \<Rightarrow> string \<Rightarrow> error option \<times> agent_state" where
  "renamer_send st message recipient =
     (case message of
        None \<Rightarrow> (Some ValueError, st)
      | Some m \<Rightarrow>
          (None, st\<lparr>agent_messages :=
                     add_message (agent_messages st) recipient ''assistant''
                       (m\<lparr>receiving_agent := Some recipient\<rparr>)\<rparr>))"

text \<open>
  \<open>SQLGeneratorAgent.receive\<close>: the message is appended, the reply is generated from
  the partner's messages and sent back.  An exception of \<open>generate_reply\<close> leaves
  \<open>receive\<close> after the message has been appended.
\<close>

definition sql_receive ::
    "externals \<Rightarrow> llm_externals \<Rightarrow> string \<Rightarrow> agent_state \<Rightarrow> agent_message \<Rightarrow> string \<Rightarrow>
     error option \<times> agent_state" where
  "sql_receive X L termination_message st message sender =
     (let h = add_message (agent_messages st) sender ''user'' message;
          c = completion L (agent_database st) (get_messages h sender)
      in (case generate_reply X termination_message (agent_database st) c of
            (Inl e, db') \<Rightarrow> (Some e, \<lparr>agent_messages = h, agent_database = db'\<rparr>)
          | (Inr reply, db') \<Rightarrow>
              sql_send \<lparr>agent_messages = h, agent_database = db'\<rparr> (Some reply) sender))"

text \<open>
  \<open>SchemaRenamerAgent.generate_reply\<close>: the reply, and the list \<open>messages\<close> as the
  function leaves it.  The assignment \<open>messages[0].content = ...\<close> writes the text of
  the schema into the first message of the list (\<open>IndexError\<close> on an empty list); the
  model is then asked with the list so changed.
\<close>

definition renamer_generate_reply ::
    "llm_externals \<Rightarrow> database \<Rightarrow> agent_message list \<Rightarrow>
     error + (agent_message \<times> agent_message list)" where
  "renamer_generate_reply L db ms =
     (case ms of
        [] \<Rightarrow> Inl IndexError
      | m0 # rest \<Rightarrow>
          (let ms' = m0\<lparr>content := ''My schema is'' @ [CHR 0x0A] @ serialize_as_list L db\<rparr> # rest
           in Inr ((new_message ''assistant'' (completion L db ms') ''SchemaRenamer'')
                     \<lparr>requires_execution := True\<rparr>, ms')))"

text \<open>
  \<open>SchemaRenamerAgent.receive\<close>.  The list given to \<open>generate_reply\<close> is the
  partner's list of the history itself, so the list as \<open>generate_reply\<close> leaves it is
  the partner's list afterwards.
\<close>

definition renamer_receive ::
    "llm_externals \<Rightarrow> agent_state \<Rightarrow> agent_message \<Rightarrow> string \<Rightarrow> error option \<times> agent_state" where
  "renamer_receive L st message sender =
     (let h = add_message (agent_messages st) sender ''user'' message
      in (case renamer_generate_reply L (agent_database st) (get_messages h sender) of
            Inl e \<Rightarrow> (Some e, st\<lparr>agent_messages := h\<rparr>)
          | Inr (reply, ms') \<Rightarrow>
              renamer_send (st\<lparr>agent_messages := h(sender := ms')\<rparr>) (Some reply) sender))"

text \<open>
  The operations an agent performs in a conversation, and the state after a sequence
  of them (an operation that raises leaves the state it has reached).
\<close>

datatype event = Send "agent_message option" string | Receive agent_message string

definition sql_step ::
    "externals \<Rightarrow> llm_externals \<Rightarrow> string \<Rightarrow> agent_state \<Rightarrow> event \<Rightarrow> agent_state" where
  "sql_step X L termination_message st ev =
     (case ev of
        Send message recipient \<Rightarrow> snd (sql_send st message recipient)
      | Receive message sender \<Rightarrow> snd (sql_receive X L termination_message st message sender))"

definition renamer_step :: "llm_externals \<Rightarrow> agent_state \<Rightarrow> event \<Rightarrow> agent_state" where
  "renamer_step L st ev =
     (case ev of
        Send message recipient \<Rightarrow> snd (renamer_send st message recipient)
      | Receive message sender \<Rightarrow> snd (renamer_receive L st message sender))"

text \<open>
  \<open>first_content_only old new\<close>: the list \<open>new\<close> is the list \<open>old\<close> with messages
  appended and with, at most, the content of its first message replaced.
\<close>

definition first_content_only :: "agent_message list \<Rightarrow> agent_message list \<Rightarrow> bool" where
  "first_content_only old new =
     (length old \<le> length new \<and> (\<exists>ext. drop 1 new = drop 1 old @ ext) \<and>
      (old = [] \<or> (\<exists>c. hd new = (hd old)\<lparr>content := c\<rparr>)))"

section \<open>Example inputs\<close>

text \<open>
  A stand-in for the SQL library and the query engine, used in the examples: it formats
  one query and fails on every other text, normalizes a query to itself, finds no table
  reference and gives no preview; the interpreter has its default limit of 4300 digits.
\<close>

definition example_externals :: externals where
  "example_externals =
     \<lparr>parse_pretty =
        (\<lambda>q. if q = ''SELECT * FROM orders''
             then Some (''SELECT'' @ [CHR 0x0A] @ ''  *'' @ [CHR 0x0A] @ ''FROM orders'')
             else None),
      normalize_query = (\<lambda>db q. Inr q),
      referenced = (\<lambda>q. []),
      run_sql_to_df = (\<lambda>db q. None),
      int_max_str_digits = 4300\<rparr>"

text \<open>
  A message with one fragment whose tag has 4301 digits, one more than the interpreter
  converts by default.
\<close>

definition long_tag_message :: string where
  "long_tag_message =
     ''<sql'' @ replicate 4301 (CHR ''1'') @ ''>SELECT 1</sql'' @ replicate 4301 (CHR ''1'') @ ''>''"

text \<open>
  The schema of the end-to-end scenarios: \<open>orders(oid, cust_id)\<close> and
  \<open>customers(id, name)\<close> with the foreign key \<open>orders.cust_id -> customers.id\<close>, no
  remap and no view.
\<close>

definition orders_db :: database where
  "orders_db =
     \<lparr>base_tables = [(''orders'', [''oid'', ''cust_id'']), (''customers'', [''id'', ''name''])],
      foreign_keys = [((''orders'', ''cust_id''), (''customers'', ''id''))],
      committed_remaps = [],
      remaps = [],
      views = []\<rparr>"

text \<open>
  Remap payloads of the scenarios, as the model writes them: the duplicate target of
  scenario B, the accepted remap of scenario A, and a remap that leaves the foreign key
  \<open>orders.cust_id -> customers.id\<close> with two different names.
\<close>

definition duplicate_payload :: string where
  \<open>duplicate_payload = ''{"orders": {"cust_id": "name", "oid": "name"}}''\<close>

definition matching_payload :: string where
  \<open>matching_payload = ''{"customers": {"id": "cust_id"}}''\<close>

definition mismatch_payload :: string where
  \<open>mismatch_payload = ''{"customers": {"name": "customer_name"}}''\<close>

text \<open>
  \<open>json.loads\<close> at the texts of the examples: the three payloads above decode to
  their dictionaries, and the texts of the examples that are not JSON give the decoder's
  error.  The foreign-key pairs are shown one after the other.
\<close>

definition example_json_loads :: "string \<Rightarrow> string + remapping" where
  "example_json_loads j =
     (if j = duplicate_payload then Inr [(''orders'', [(''cust_id'', ''name''), (''oid'', ''name'')])]
      else if j = matching_payload then Inr [(''customers'', [(''id'', ''cust_id'')])]
      else if j = mismatch_payload then Inr [(''customers'', [(''name'', ''customer_name'')])]
      else Inl ''Expecting value: line 1 column 1 (char 0)'')"

definition example_renamer_externals :: renamer_externals where
  "example_renamer_externals =
     \<lparr>json_loads = example_json_loads,
      repr_fks =
        (\<lambda>ps. concat (map (\<lambda>((t1, c1), (t2, c2)).
                 ''('' @ t1 @ ''.'' @ c1 @ '', '' @ t2 @ ''.'' @ c2 @ '')'') ps))\<rparr>"

text \<open>The message of the schema cleaner that carries a proposal.\<close>

definition proposal :: "string \<Rightarrow> agent_message" where
  "proposal c = (new_message ''assistant'' c ''SchemaRenamer'')\<lparr>requires_execution := True\<rparr>"

text \<open>The rejection that names the foreign key of \<open>orders_db\<close>.\<close>

definition fk_rejection :: agent_message where
  "fk_rejection =
     (new_message ''assistant''
        (fk_message example_renamer_externals [((''orders'', ''cust_id''), (''customers'', ''id''))] @
         '' Please regenerate mapping and try again.'')
        ''SchemaRenamer'')\<lparr>requires_response := True\<rparr>"

text \<open>A text in a fenced block, after a line of prose.\<close>

definition fenced :: "string \<Rightarrow> string" where
  "fenced body = ''Here is the remapping:'' @ [CHR 0x0A] @ fence_open @ body @ fence_close"

text \<open>
  A stand-in for the completion service and the serializer: the model always answers
  with the remap of scenario A in a fenced block, and the schema is shown as the names
  of its base tables.  \<open>waiting_agent\<close> is an agent over \<open>orders_db\<close> that has
  the request \<open>clean schema\<close> of the partner \<open>User\<close> in its history.
\<close>

definition example_llm :: llm_externals where
  "example_llm =
     \<lparr>completion = (\<lambda>db ms. fenced matching_payload),
      serialize_as_list = (\<lambda>db. concat (map (\<lambda>(t, cols). t @ '';'') (base_tables db)))\<rparr>"

definition clean_request :: agent_message where
  "clean_request = new_message ''user'' ''clean schema'' ''User''"

definition follow_up :: agent_message where
  "follow_up = new_message ''user'' ''please go on'' ''User''"

definition waiting_agent :: agent_state where
  "waiting_agent =
     \<lparr>agent_messages = (\<lambda>p. if p = ''User'' then [clean_request] else []),
      agent_database = orders_db\<rparr>"

section \<open>Properties of the view-lineage resolver\<close>

subsection \<open>Formatting never fails\<close>

text \<open>
  Claim C10.  \<open>prettify_sql\<close> returns a string for every input: the formatted query
  when the SQL parser accepts the input, and the input itself, unchanged, when the parser
  raises.
\<close>

theorem prettify_sql_total:
  "(parse_pretty X sql = None \<longrightarrow> prettify_sql X sql = sql) \<and>
   (\<forall>pretty. parse_pretty X sql = Some pretty \<longrightarrow> prettify_sql X sql = pretty)"
  by (simp add: prettify_sql_def)

theorem prettify_sql_total_witness:
  "parse_pretty example_externals ''SELEC * FROM'' = None \<and>
   prettify_sql example_externals ''SELEC * FROM'' = ''SELEC * FROM'' \<and>
   parse_pretty example_externals ''SELECT * FROM orders'' =
     Some (''SELECT'' @ [CHR 0x0A] @ ''  *'' @ [CHR 0x0A] @ ''FROM orders'') \<and>
   prettify_sql example_externals ''SELECT * FROM orders'' =
     ''SELECT'' @ [CHR 0x0A] @ ''  *'' @ [CHR 0x0A] @ ''FROM orders''"
  using prettify_sql_total [of example_externals "''SELEC * FROM''"]
    prettify_sql_total [of example_externals "''SELECT * FROM orders''"]
  by (simp add: example_externals_def)

subsection \<open>Rewriting references to earlier tags\<close>

text \<open>
  Claim C1.  In scenario C the two fragments are extracted as they stand, and the
  rewriting of the second body replaces the parenthesized reference \<open>(<sql1>)\<close> by
  \<open>(SELECT * FROM <sql1>)\<close>: the slice \<open>tag[1:-1]\<close> removes the parentheses of the
  match and leaves the angle brackets of the tag, so the text that is registered for
  \<open>sql2\<close> is not a subquery over the view \<open>sql1\<close>.  A bare reference \<open><sql1>\<close> is
  rewritten to \<open>(SELECT * FROM sql1)\<close>; \<open>sql2\<close> is the current result.
\<close>

theorem scenario_c_rewrite:
  "parse_sqls
     ''<sql1>SELECT * FROM orders</sql1> <sql2>SELECT count(*) FROM (<sql1>)</sql2>'' =
     Inr [(''sql1'', ''SELECT * FROM orders''), (''sql2'', ''SELECT count(*) FROM (<sql1>)'')] \<and>
   replace_tag_with_table ''SELECT count(*) FROM (<sql1>)'' =
     ''SELECT count(*) FROM (SELECT * FROM <sql1>)'' \<and>
   replace_tag_with_table ''SELECT count(*) FROM <sql1>'' =
     ''SELECT count(*) FROM (SELECT * FROM sql1)'' \<and>
   register_views example_externals orders_db
     [(''sql1'', ''SELECT * FROM orders''), (''sql2'', ''SELECT count(*) FROM (<sql1>)'')] =
     (None, orders_db\<lparr>views :=
        [(''sql1'', ''SELECT * FROM orders''),
         (''sql2'', ''SELECT count(*) FROM (SELECT * FROM <sql1>)'')]\<rparr>) \<and>
   largest_key 4300 [''sql1'', ''sql2''] = Inr ''sql2''"
  by code_simp

subsection \<open>What the parser does to a fragment body\<close>

lemma replace_nonempty_Nil: "replace_nonempty old new [] = []"
  by (subst replace_nonempty.simps) simp

lemma replace_nonempty_Cons:
  "old \<noteq> [] \<Longrightarrow>
   replace_nonempty old new (c # s) =
     (if starts_with old (c # s) then new @ replace_nonempty old new (drop (length old) (c # s))
      else c # replace_nonempty old new s)"
  by (subst replace_nonempty.simps) simp

lemma replace_semicolon: "replace '';'' [] s = filter (\<lambda>c. c \<noteq> CHR '';'') s"
proof (induction s)
  case Nil
  then show ?case by (simp add: replace_def replace_nonempty_Nil)
next
  case (Cons c s)
  then show ?case
    by (cases "c = CHR '';''") (simp_all add: replace_def replace_nonempty_Cons)
qed

lemma dict_set_entries:
  "(k, v) \<in> set (dict_set d k' v') \<Longrightarrow> (k, v) \<in> set d \<or> (k, v) = (k', v')"
  by (induction d) (auto split: if_splits)

lemma add_component_entries:
  assumes "(k, v) \<in> set (add_component d (whole, raw))"
  shows "(k, v) \<in> set d \<or>
         (search_tag whole = Some k \<and> v = strip (filter (\<lambda>c. c \<noteq> CHR '';'') raw))"
  using assms
  by (auto simp: add_component_def replace_semicolon split: option.splits
      dest: dict_set_entries)

lemma foldl_add_component_entries:
  "(k, v) \<in> set (foldl add_component d comps) \<Longrightarrow>
   (k, v) \<in> set d \<or>
   (\<exists>whole raw. (whole, raw) \<in> set comps \<and> search_tag whole = Some k \<and>
      v = strip (filter (\<lambda>c. c \<noteq> CHR '';'') raw))"
proof (induction comps arbitrary: d)
  case Nil
  then show ?case by simp
next
  case (Cons p comps)
  obtain whole raw where p: "p = (whole, raw)" by (cases p)
  from Cons.prems
  have "(k, v) \<in> set (foldl add_component (add_component d (whole, raw)) comps)"
    by (simp add: p)
  from Cons.IH [OF this] show ?case
  proof
    assume "(k, v) \<in> set (add_component d (whole, raw))"
    from add_component_entries [OF this] show ?thesis by (auto simp: p)
  next
    assume "\<exists>whole raw. (whole, raw) \<in> set comps \<and> search_tag whole = Some k \<and>
      v = strip (filter (\<lambda>c. c \<noteq> CHR '';'') raw)"
    then show ?thesis by auto
  qed
qed

lemma set_strip: "set (strip s) \<subseteq> set s"
proof
  fix x assume "x \<in> set (strip s)"
  then have "x \<in> set (dropWhile is_space (rev (dropWhile is_space s)))"
    by (simp add: strip_def)
  then have "x \<in> set (rev (dropWhile is_space s))" by (rule set_dropWhileD)
  then have "x \<in> set (dropWhile is_space s)" by simp
  then show "x \<in> set s" by (rule set_dropWhileD)
qed

lemma strip_no_space:
  "strip s = [] \<or> (\<not> is_space (hd (strip s)) \<and> \<not> is_space (last (strip s)))"
proof (cases "strip s = []")
  case True
  then show ?thesis by simp
next
  case False
  define t where "t = dropWhile is_space s"
  define u where "u = dropWhile is_space (rev t)"
  have su: "strip s = rev u" by (simp add: strip_def t_def u_def)
  with False have une: "u \<noteq> []" by simp
  then have hu: "\<not> is_space (hd u)" unfolding u_def by (rule hd_dropWhile)
  from une have tne: "t \<noteq> []" by (auto simp: u_def)
  then have ht: "\<not> is_space (hd t)" unfolding t_def by (rule hd_dropWhile)
  have "\<exists>pre. rev t = pre @ u" unfolding u_def
    by (metis takeWhile_dropWhile_id)
  then obtain pre where "rev t = pre @ u" ..
  then have "t = rev u @ rev pre" by (metis rev_append rev_rev_ident)
  with une have "hd t = hd (rev u)" by simp
  with ht hu su une show ?thesis by (simp add: last_rev)
qed

text \<open>
  Claim C4, as the source has it.  Every body in the dictionary returned by
  \<open>parse_sqls\<close> is the text of a fragment found in the message from which every
  semicolon has been removed (\<open>replace(";", "")\<close>), not only a trailing one, and which
  has then been stripped of leading and trailing white space.  So a body never contains
  a semicolon and neither starts nor ends with white space.
\<close>

theorem parse_sqls_body:
  assumes "parse_sqls message = Inr sql_dict" and "(k, v) \<in> set sql_dict"
  shows "(\<exists>whole raw. (whole, raw) \<in> set (findall_components message) \<and>
            search_tag whole = Some k \<and> v = strip (filter (\<lambda>c. c \<noteq> CHR '';'') raw)) \<and>
         CHR '';'' \<notin> set v \<and>
         (v = [] \<or> (\<not> is_space (hd v) \<and> \<not> is_space (last v)))"
proof -
  from assms(1) have d: "sql_dict = foldl add_component [] (findall_components message)"
    by (auto simp: parse_sqls_def Let_def split: if_splits)
  from assms(2) foldl_add_component_entries [of k v "[]" "findall_components message"]
  obtain whole raw where w: "(whole, raw) \<in> set (findall_components message)"
    "search_tag whole = Some k" "v = strip (filter (\<lambda>c. c \<noteq> CHR '';'') raw)"
    unfolding d by auto
  have "set v \<subseteq> set (filter (\<lambda>c. c \<noteq> CHR '';'') raw)"
    unfolding w(3) by (rule set_strip)
  then have "CHR '';'' \<notin> set v" by auto
  moreover have "v = [] \<or> (\<not> is_space (hd v) \<and> \<not> is_space (last v))"
    unfolding w(3) by (rule strip_no_space)
  ultimately show ?thesis using w by blast
qed

theorem parse_sqls_body_witness:
  "parse_sqls (''<sql1> SELECT 1; SELECT 2; '' @ [CHR 0x0A] @ ''</sql1>'') =
     Inr [(''sql1'', ''SELECT 1 SELECT 2'')] \<and>
   CHR '';'' \<notin> set ''SELECT 1 SELECT 2'' \<and>
   \<not> is_space (hd ''SELECT 1 SELECT 2'') \<and> \<not> is_space (last ''SELECT 1 SELECT 2'')"
proof -
  have p: "parse_sqls (''<sql1> SELECT 1; SELECT 2; '' @ [CHR 0x0A] @ ''</sql1>'') =
     Inr [(''sql1'', ''SELECT 1 SELECT 2'')]"
    by code_simp
  have m: "(''sql1'', ''SELECT 1 SELECT 2'') \<in> set [(''sql1'', ''SELECT 1 SELECT 2'')]"
    by simp
  from parse_sqls_body [OF p m] p show ?thesis by simp
qed

text \<open>
  The claim as it was written fails: of the two semicolons of
  \<open>SELECT 1; SELECT 2;\<close> the parser removes both, also the one between the
  statements.
\<close>

theorem parse_sqls_inner_semicolon_removed:
  "parse_sqls ''<sql1>SELECT 1; SELECT 2;</sql1>'' =
     Inr [(''sql1'', ''SELECT 1 SELECT 2'')] \<and>
   parse_sqls ''<sql1>SELECT 1; SELECT 2;</sql1>'' \<noteq>
     Inr [(''sql1'', ''SELECT 1; SELECT 2'')]"
  by code_simp

subsection \<open>The shape of the extracted tags\<close>

lemma starts_with_append: "starts_with p s \<Longrightarrow> s = p @ drop (length p) s"
  by (induction p s rule: starts_with.induct) auto

lemma starts_with_prefix: "starts_with p (p @ r)"
  by (induction p) auto

lemma match_tag_sound:
  assumes "match_tag pre s = Some (ds, r)"
  shows "s = pre @ ds @ CHR ''>'' # r \<and> ds \<noteq> [] \<and> list_all is_digit ds"
proof -
  define r0 where "r0 = drop (length pre) s"
  from assms have sw: "starts_with pre s"
    by (auto simp: match_tag_def split: if_splits)
  from assms sw have dw: "dropWhile is_digit r0 = CHR ''>'' # r"
    and ds: "ds = takeWhile is_digit r0" and ne: "ds \<noteq> []"
    by (auto simp: match_tag_def Let_def r0_def split: if_splits list.splits)
  have "r0 = takeWhile is_digit r0 @ dropWhile is_digit r0" by simp
  with dw ds have "r0 = ds @ CHR ''>'' # r" by simp
  moreover from sw have "s = pre @ r0" unfolding r0_def by (rule starts_with_append)
  moreover have "list_all is_digit ds" unfolding ds list_all_iff
    by (auto dest: set_takeWhileD)
  ultimately show ?thesis using ne by simp
qed

lemma match_tag_complete:
  assumes "ds \<noteq> []" and "list_all is_digit ds"
  shows "match_tag pre (pre @ ds @ CHR ''>'' # r) = Some (ds, r)"
proof -
  have nd: "\<not> is_digit CHR ''>''" by (simp add: is_digit_def)
  from assms(2) have a: "\<forall>x\<in>set ds. is_digit x" by (simp add: list_all_iff)
  from a nd have t: "takeWhile is_digit (ds @ CHR ''>'' # r) = ds"
    by (simp add: takeWhile_append2)
  from a nd have d: "dropWhile is_digit (ds @ CHR ''>'' # r) = CHR ''>'' # r"
    by (simp add: dropWhile_append2)
  show ?thesis using assms(1) t d
    by (simp add: match_tag_def starts_with_prefix Let_def)
qed

lemma find_close_suffix: "find_close s = Some (body, r) \<Longrightarrow> \<exists>mid. s = mid @ r"
proof (induction s arbitrary: body)
  case Nil
  then show ?case by simp
next
  case (Cons c s)
  show ?case
  proof (cases "match_close (c # s)")
    case None
    with Cons.prems obtain b where "find_close s = Some (b, r)"
      by (auto split: option.splits)
    then obtain mid where "s = mid @ r" using Cons.IH by blast
    then have "c # s = (c # mid) @ r" by simp
    then show ?thesis by blast
  next
    case (Some p)
    with Cons.prems have "match_tag ''</sql'' (c # s) = Some (fst p, r)"
      by (cases p) (auto simp: match_close_def)
    from match_tag_sound [OF this]
    have "c # s = (''</sql'' @ fst p @ ''>'') @ r" by simp
    then show ?thesis by blast
  qed
qed

lemma match_component_whole:
  assumes "match_component s = Some ((whole, body), r)"
  shows "\<exists>ds mid. whole = ''<sql'' @ ds @ CHR ''>'' # mid \<and> ds \<noteq> [] \<and> list_all is_digit ds"
proof -
  from assms obtain ds r0 where o: "match_open s = Some (ds, r0)"
    and f: "find_close r0 = Some (body, r)"
    and w: "whole = take (length s - length r) s"
    by (auto simp: match_component_def split: option.splits)
  from o have s: "s = ''<sql'' @ ds @ CHR ''>'' # r0" and d: "ds \<noteq> []" "list_all is_digit ds"
    using match_tag_sound [of "''<sql''" s ds r0] by (auto simp: match_open_def)
  from f obtain mid where m: "r0 = mid @ r" using find_close_suffix by blast
  have "s = (''<sql'' @ ds @ CHR ''>'' # mid) @ r" using s m by simp
  then have "whole = ''<sql'' @ ds @ CHR ''>'' # mid"
    unfolding w by (metis append_eq_conv_conj length_append add_diff_cancel_right')
  with d show ?thesis by blast
qed

lemma search_tag_open:
  assumes "ds \<noteq> []" and "list_all is_digit ds"
  shows "search_tag (''<sql'' @ ds @ CHR ''>'' # mid) = Some (''sql'' @ ds)"
proof -
  have "match_open (''<sql'' @ ds @ CHR ''>'' # mid) = Some (ds, mid)"
    unfolding match_open_def using assms by (rule match_tag_complete)
  then show ?thesis by simp
qed

lemma search_tag_Some:
  "search_tag s = Some k \<Longrightarrow> \<exists>ds. k = ''sql'' @ ds \<and> ds \<noteq> [] \<and> list_all is_digit ds"
proof (induction s)
  case Nil
  then show ?case by simp
next
  case (Cons c s)
  show ?case
  proof (cases "match_open (c # s)")
    case None
    with Cons show ?thesis by simp
  next
    case (Some p)
    then have "match_tag ''<sql'' (c # s) = Some (fst p, snd p)" by (simp add: match_open_def)
    from match_tag_sound [OF this] Cons.prems Some show ?thesis
      by (cases p) auto
  qed
qed

lemma findall_components_None:
  "match_component s = None \<Longrightarrow>
   findall_components s = (case s of [] \<Rightarrow> [] | c # s' \<Rightarrow> findall_components s')"
  by (subst findall_components.simps) simp

lemma findall_components_Some:
  "match_component s = Some (g, r) \<Longrightarrow> findall_components s = g # findall_components r"
  by (subst findall_components.simps) simp

lemma findall_components_member:
  "(whole, body) \<in> set (findall_components s) \<Longrightarrow>
   \<exists>s' r. match_component s' = Some ((whole, body), r)"
proof (induction s rule: findall_components.induct)
  case (1 s)
  show ?case
  proof (cases "match_component s")
    case None
    with "1.prems" obtain c s' where s: "s = c # s'"
      and m: "(whole, body) \<in> set (findall_components s')"
      by (cases s) (auto simp: findall_components_None)
    from "1.IH"(1) [OF None s m] show ?thesis .
  next
    case (Some p)
    obtain g r where p: "p = (g, r)" by (cases p)
    from "1.prems" Some p have "(whole, body) = g \<or> (whole, body) \<in> set (findall_components r)"
      by (auto simp: findall_components_Some)
    then show ?thesis
    proof
      assume "(whole, body) = g"
      with Some p show ?thesis by auto
    next
      assume m: "(whole, body) \<in> set (findall_components r)"
      from "1.IH"(2) [OF Some p [symmetric] m] show ?thesis .
    qed
  qed
qed

lemma component_search_tag:
  assumes "(whole, body) \<in> set (findall_components s)"
  shows "\<exists>ds. search_tag whole = Some (''sql'' @ ds) \<and> ds \<noteq> [] \<and> list_all is_digit ds"
proof -
  from findall_components_member [OF assms] obtain s' r
    where "match_component s' = Some ((whole, body), r)" by blast
  from match_component_whole [OF this] obtain ds mid
    where "whole = ''<sql'' @ ds @ CHR ''>'' # mid" "ds \<noteq> []" "list_all is_digit ds" by blast
  with search_tag_open [of ds mid] show ?thesis by auto
qed

lemma dict_set_nonempty: "dict_set d k v \<noteq> []"
  by (cases d) auto

lemma add_component_nonempty: "d \<noteq> [] \<Longrightarrow> add_component d p \<noteq> []"
  by (cases p) (auto simp: add_component_def dict_set_nonempty split: option.splits)

lemma foldl_add_component_nonempty: "d \<noteq> [] \<Longrightarrow> foldl add_component d comps \<noteq> []"
  by (induction comps arbitrary: d) (auto simp: add_component_nonempty)

lemma parse_sqls_nonempty:
  assumes "parse_sqls message = Inr d"
  shows "d \<noteq> []"
proof -
  from assms have ne: "findall_components message \<noteq> []"
    and d: "d = foldl add_component [] (findall_components message)"
    by (auto simp: parse_sqls_def Let_def split: if_splits)
  from ne obtain whole body rest where c: "findall_components message = (whole, body) # rest"
    by (cases "findall_components message") auto
  then have "(whole, body) \<in> set (findall_components message)" by simp
  from component_search_tag [OF this] obtain k where "search_tag whole = Some k" by blast
  then have "add_component [] (whole, body) \<noteq> []"
    by (simp add: add_component_def)
  then have "foldl add_component (add_component [] (whole, body)) rest \<noteq> []"
    by (rule foldl_add_component_nonempty)
  then show ?thesis by (simp add: d c)
qed

lemma parse_sqls_keys:
  assumes "parse_sqls message = Inr d" and "k \<in> set (map fst d)"
  shows "\<exists>ds. k = ''sql'' @ ds \<and> ds \<noteq> [] \<and> list_all is_digit ds"
proof -
  from assms(2) obtain v where kv: "(k, v) \<in> set d" by auto
  from assms(1) have d: "d = foldl add_component [] (findall_components message)"
    by (auto simp: parse_sqls_def Let_def split: if_splits)
  from kv foldl_add_component_entries [of k v "[]" "findall_components message"]
  obtain whole where "search_tag whole = Some k" unfolding d by auto
  then show ?thesis by (rule search_tag_Some)
qed

lemma py_int_digits:
  assumes "ds \<noteq> []" and "list_all is_digit ds" and "lim = 0 \<or> length ds \<le> lim"
  shows "\<exists>n. py_int lim ds = Some n"
  using assms by (auto simp: py_int_def)

lemma py_int_too_long:
  assumes "0 < lim" and "lim < length ds"
  shows "py_int lim ds = None"
  using assms by (simp add: py_int_def)

lemma max_from_best:
  "max_from f best xs \<in> set (best # xs) \<and>
   (\<forall>x\<in>set (best # xs). f x \<le> f (max_from f best xs))"
proof (induction xs arbitrary: best)
  case Nil
  then show ?case by simp
next
  case (Cons x xs)
  let ?b = "if f best < f x then x else best"
  from Cons.IH [of ?b]
  have m: "max_from f ?b xs \<in> set (?b # xs)"
    and g: "\<forall>y\<in>set (?b # xs). f y \<le> f (max_from f ?b xs)" by blast+
  from g have "f ?b \<le> f (max_from f ?b xs)" by simp
  then have "f best \<le> f (max_from f ?b xs)" "f x \<le> f (max_from f ?b xs)"
    by (auto split: if_splits)
  with m g show ?case by (auto split: if_splits)
qed

subsection \<open>The current result of a turn\<close>

lemma starts_with_set: "starts_with p s \<Longrightarrow> set p \<subseteq> set s"
  by (induction p s rule: starts_with.induct) auto

lemma contains_set: "contains p s \<Longrightarrow> set p \<subseteq> set s"
proof (induction s)
  case Nil
  then show ?case by simp
next
  case (Cons c s)
  from Cons.prems have "starts_with p (c # s) \<or> contains p s" by simp
  then show ?case
  proof
    assume "starts_with p (c # s)"
    then show ?thesis by (rule starts_with_set)
  next
    assume "contains p s"
    then have "set p \<subseteq> set s" by (rule Cons.IH)
    then show ?thesis by auto
  qed
qed

lemma parse_sqls_long_tag:
  "parse_sqls long_tag_message = Inr [(''sql'' @ replicate 4301 (CHR ''1''), ''SELECT 1'')]"
proof -
  define ds where "ds = replicate 4301 (CHR ''1'')"
  have ne: "ds \<noteq> []" by (simp add: ds_def)
  have dg: "list_all is_digit ds" by (simp add: ds_def list_all_iff is_digit_def)
  have m: "long_tag_message = ''<sql'' @ ds @ CHR ''>'' # (''SELECT 1'' @ ''</sql'' @ ds @ ''>'')"
    by (simp add: long_tag_message_def ds_def)
  have cl: "match_close (''</sql'' @ ds @ CHR ''>'' # []) = Some (ds, [])"
    unfolding match_close_def using ne dg by (rule match_tag_complete)
  have f0: "find_close (''</sql'' @ ds @ ''>'') = Some ([], [])"
    using cl by simp
  have f: "find_close (''SELECT 1'' @ ''</sql'' @ ds @ ''>'') = Some (''SELECT 1'', [])"
    using f0 by (simp add: match_close_def match_tag_def)
  have op: "match_open long_tag_message = Some (ds, ''SELECT 1'' @ ''</sql'' @ ds @ ''>'')"
    unfolding m match_open_def using ne dg by (rule match_tag_complete)
  have mc: "match_component long_tag_message = Some ((long_tag_message, ''SELECT 1''), [])"
    using op f by (simp add: match_component_def)
  have e: "match_component [] = None"
    by (simp add: match_component_def match_open_def match_tag_def)
  have fa: "findall_components long_tag_message = [(long_tag_message, ''SELECT 1'')]"
    using findall_components_Some [OF mc] findall_components_None [OF e] by simp
  have st: "search_tag long_tag_message = Some (''sql'' @ ds)"
    unfolding m using ne dg by (rule search_tag_open)
  have body: "strip (replace '';'' [] ''SELECT 1'') = ''SELECT 1''" by code_simp
  have "parse_sqls long_tag_message = Inr [(''sql'' @ ds, ''SELECT 1'')]"
    using fa st body by (simp add: parse_sqls_def add_component_def)
  then show ?thesis unfolding ds_def .
qed

lemma long_tag_length: "length (drop 3 (''sql'' @ replicate 4301 (CHR ''1''))) = 4301"
  by simp

text \<open>
  Claim C8, as the source has it.  For every message from which \<open>parse_sqls\<close>
  extracts fragments: when no tag has more digits than the interpreter converts (or the
  interpreter has no limit), the key chosen as the current result exists, is one of the
  tags of the message, and its suffix, read as an integer, is at least the integer
  suffix of every tag of the message; the comparison is on integers, so that \<open>sql10\<close>
  wins over \<open>sql2\<close>.  When some tag has more digits than the interpreter converts,
  \<open>int\<close> raises \<open>ValueError\<close> and no key is chosen.
\<close>

theorem largest_key_numeric:
  assumes "parse_sqls message = Inr sql_dict"
  shows "((lim = 0 \<or> (\<forall>k\<in>set (map fst sql_dict). length (drop 3 k) \<le> lim)) \<longrightarrow>
            (\<exists>k n. largest_key lim (map fst sql_dict) = Inr k \<and> k \<in> set (map fst sql_dict) \<and>
               py_int lim (drop 3 k) = Some n \<and>
               (\<forall>k'\<in>set (map fst sql_dict).
                  \<exists>n'. py_int lim (drop 3 k') = Some n' \<and> n' \<le> n))) \<and>
         (0 < lim \<and> (\<exists>k\<in>set (map fst sql_dict). lim < length (drop 3 k)) \<longrightarrow>
            largest_key lim (map fst sql_dict) = Inl ValueError)"
proof (intro conjI impI)
  let ?ks = "map fst sql_dict"
  let ?f = "\<lambda>x. the (py_int lim (drop 3 x))"
  assume short: "lim = 0 \<or> (\<forall>k\<in>set ?ks. length (drop 3 k) \<le> lim)"
  have num: "\<exists>n. py_int lim (drop 3 k) = Some n" if "k \<in> set ?ks" for k
  proof -
    from parse_sqls_keys [OF assms that] obtain ds
      where "k = ''sql'' @ ds" "ds \<noteq> []" "list_all is_digit ds" by blast
    moreover from short that have "lim = 0 \<or> length (drop 3 k) \<le> lim" by blast
    ultimately show ?thesis using py_int_digits [of ds lim] by simp
  qed
  from parse_sqls_nonempty [OF assms] obtain k0 ks' where ks: "?ks = k0 # ks'"
    by (cases sql_dict) auto
  have all: "list_all (\<lambda>x. py_int lim (drop 3 x) \<noteq> None) ?ks"
    unfolding list_all_iff using num by auto
  define k where "k = max_from ?f k0 ks'"
  have lk: "largest_key lim ?ks = Inr k"
    using all unfolding largest_key_def ks k_def by simp
  from max_from_best [of ?f k0 ks'] have mem: "k \<in> set ?ks"
    and ge: "\<forall>x\<in>set ?ks. ?f x \<le> ?f k" unfolding k_def ks by blast+
  from num [OF mem] obtain n where n: "py_int lim (drop 3 k) = Some n" by blast
  have "\<exists>n'. py_int lim (drop 3 k') = Some n' \<and> n' \<le> n" if "k' \<in> set ?ks" for k'
  proof -
    from num [OF that] obtain n' where n': "py_int lim (drop 3 k') = Some n'" by blast
    from ge that have "?f k' \<le> ?f k" by blast
    with n n' show ?thesis by simp
  qed
  with lk mem n
  show "\<exists>k n. largest_key lim ?ks = Inr k \<and> k \<in> set ?ks \<and> py_int lim (drop 3 k) = Some n \<and>
      (\<forall>k'\<in>set ?ks. \<exists>n'. py_int lim (drop 3 k') = Some n' \<and> n' \<le> n)"
    by blast
next
  let ?ks = "map fst sql_dict"
  assume "0 < lim \<and> (\<exists>k\<in>set ?ks. lim < length (drop 3 k))"
  then obtain k where k: "k \<in> set ?ks" and "py_int lim (drop 3 k) = None"
    using py_int_too_long by blast
  then have n: "\<not> list_all (\<lambda>x. py_int lim (drop 3 x) \<noteq> None) ?ks"
    unfolding list_all_iff by blast
  from k obtain k0 ks' where ks: "?ks = k0 # ks'" by (cases ?ks) auto
  from n show "largest_key lim ?ks = Inl ValueError"
    unfolding largest_key_def ks by simp
qed

theorem largest_key_numeric_witness:
  "parse_sqls ''<sql2>SELECT 2</sql2> <sql10>SELECT 10</sql10> <sql1>SELECT 1</sql1>'' =
     Inr [(''sql2'', ''SELECT 2''), (''sql10'', ''SELECT 10''), (''sql1'', ''SELECT 1'')] \<and>
   largest_key 4300 [''sql2'', ''sql10'', ''sql1''] = Inr ''sql10'' \<and>
   py_int 4300 (drop 3 ''sql10'') = Some 10 \<and> py_int 4300 (drop 3 ''sql2'') = Some 2 \<and>
   py_int 4300 (drop 3 ''sql1'') = Some 1 \<and>
   parse_sqls long_tag_message = Inr [(''sql'' @ replicate 4301 (CHR ''1''), ''SELECT 1'')] \<and>
   (4300::nat) < length (drop 3 (''sql'' @ replicate 4301 (CHR ''1''))) \<and>
   largest_key 4300 [''sql'' @ replicate 4301 (CHR ''1'')] = Inl ValueError"
proof -
  have p: "parse_sqls
      ''<sql2>SELECT 2</sql2> <sql10>SELECT 10</sql10> <sql1>SELECT 1</sql1>'' =
     Inr [(''sql2'', ''SELECT 2''), (''sql10'', ''SELECT 10''), (''sql1'', ''SELECT 1'')]"
    by code_simp
  have s: "\<forall>k\<in>set (map fst [(''sql2'', ''SELECT 2''), (''sql10'', ''SELECT 10''),
      (''sql1'', ''SELECT 1'')]). length (drop 3 k) \<le> 4300"
    by simp
  from largest_key_numeric [OF p, of 4300] s
  have "\<exists>k. largest_key 4300 [''sql2'', ''sql10'', ''sql1''] = Inr k" by auto
  moreover have a: "largest_key 4300 [''sql2'', ''sql10'', ''sql1''] = Inr ''sql10''"
    by code_simp
  moreover have b: "py_int 4300 (drop 3 ''sql10'') = Some 10 \<and>
      py_int 4300 (drop 3 ''sql2'') = Some 2 \<and> py_int 4300 (drop 3 ''sql1'') = Some 1"
    by code_simp
  moreover note q = parse_sqls_long_tag
  have l: "(4300::nat) < length (drop 3 (''sql'' @ replicate 4301 (CHR ''1'')))"
    using long_tag_length by simp
  from largest_key_numeric [OF q, of 4300] l
  have c: "largest_key 4300 [''sql'' @ replicate 4301 (CHR ''1'')] = Inl ValueError"
    by simp
  from p a b q l c show ?thesis by blast
qed

text \<open>
  The claim as it was written fails: for the message whose only tag has 4301 digits no
  fragment is chosen; \<open>generate_reply\<close> ends with the \<open>ValueError\<close> of \<open>int\<close>.
\<close>

theorem long_tag_raises:
  "parse_sqls long_tag_message = Inr [(''sql'' @ replicate 4301 (CHR ''1''), ''SELECT 1'')] \<and>
   largest_key 4300 [''sql'' @ replicate 4301 (CHR ''1'')] = Inl ValueError \<and>
   generate_reply example_externals ''<exit>'' orders_db long_tag_message =
     (Inl ValueError, orders_db)"
proof -
  note p = parse_sqls_long_tag
  have "py_int 4300 (drop 3 (''sql'' @ replicate 4301 (CHR ''1''))) = None"
    using long_tag_length by (simp add: py_int_def)
  then have lk: "largest_key 4300 [''sql'' @ replicate 4301 (CHR ''1'')] = Inl ValueError"
    by (simp add: largest_key_def)
  have "CHR ''e'' \<notin> set long_tag_message"
    by (simp add: long_tag_message_def)
  then have nt: "\<not> contains ''<exit>'' long_tag_message"
    using contains_set [of "''<exit>''" long_tag_message] by auto
  have g: "generate_reply example_externals ''<exit>'' orders_db long_tag_message =
     (Inl ValueError, orders_db)"
    using nt p lk
    by (simp add: generate_reply_def has_termination_condition_def example_externals_def)
  from p lk g show ?thesis by blast
qed

subsection \<open>Termination and the hard parse failure\<close>

text \<open>
  Claim C9.  When the model's output contains the termination token, the reply of
  \<open>generate_reply\<close> is the output marked as a termination message, and the store is
  returned as it was: nothing is parsed and no view is registered.  When the output
  has no termination token and no tagged fragment, the \<open>ValueError\<close> of
  \<open>parse_sqls\<close> leaves \<open>generate_reply\<close>, again with the store as it was.
\<close>

theorem generate_reply_termination:
  "(contains termination_message c \<longrightarrow>
      generate_reply X termination_message db c =
        (Inr ((generated_message ''assistant'' c ''SQLGenerator'')
                \<lparr>is_termination_message := True\<rparr>),
         db)) \<and>
   (\<not> contains termination_message c \<and> findall_components c = [] \<longrightarrow>
      generate_reply X termination_message db c = (Inl ValueError, db))"
  by (simp add: generate_reply_def has_termination_condition_def parse_sqls_def)

theorem generate_reply_termination_witness:
  "contains ''<exit>'' ''SELECT 1 is final. <exit>'' \<and>
   generate_reply example_externals ''<exit>'' orders_db ''SELECT 1 is final. <exit>'' =
     (Inr ((generated_message ''assistant'' ''SELECT 1 is final. <exit>'' ''SQLGenerator'')
             \<lparr>is_termination_message := True\<rparr>), orders_db) \<and>
   \<not> contains ''<exit>'' ''I have no query.'' \<and>
   findall_components ''I have no query.'' = [] \<and>
   generate_reply example_externals ''<exit>'' orders_db ''I have no query.'' =
     (Inl ValueError, orders_db)"
proof -
  have a: "contains ''<exit>'' ''SELECT 1 is final. <exit>''" by code_simp
  have b: "\<not> contains ''<exit>'' ''I have no query.''" by code_simp
  have c: "findall_components ''I have no query.'' = []" by code_simp
  from generate_reply_termination [of "''<exit>''" "''SELECT 1 is final. <exit>''" example_externals orders_db]
    generate_reply_termination [of "''<exit>''" "''I have no query.''" example_externals orders_db]
    a b c show ?thesis by blast
qed

subsection \<open>Registering a tag again\<close>

lemma add_view_registers:
  assumes "add_view X db k q = Inr db'"
  shows "get_table db' k \<noteq> None"
  using assms
  by (auto simp: add_view_def get_table_def map_add_def split: if_splits option.splits)

lemma add_view_keeps:
  assumes "add_view X db k q = Inr db'" and "get_table db k' \<noteq> None"
  shows "get_table db' k' \<noteq> None"
  using assms
  by (auto simp: add_view_def get_table_def map_add_def split: if_splits option.splits)

lemma register_views_keeps:
  "register_views X db d = (e, db') \<Longrightarrow> get_table db k \<noteq> None \<Longrightarrow> get_table db' k \<noteq> None"
proof (induction X db d rule: register_views.induct)
  case (1 X db)
  then show ?case by simp
next
  case (2 X db k' v items)
  show ?case
  proof (cases "get_table db k'")
    case (Some t)
    with 2 show ?thesis by simp
  next
    case None
    show ?thesis
    proof (cases "normalize_query X db (replace_tag_with_table v)")
      case (Inl e')
      with None "2.prems" show ?thesis by simp
    next
      case (Inr v')
      show ?thesis
      proof (cases "add_view X db k' v'")
        case (Inl e')
        with None Inr "2.prems" show ?thesis by simp
      next
        case (Inr db1)
        from add_view_keeps [OF Inr "2.prems"(2)] have "get_table db1 k \<noteq> None" .
        moreover from None \<open>normalize_query X db (replace_tag_with_table v) = Inr v'\<close> Inr "2.prems"(1)
        have "register_views X db1 items = (e, db')" by simp
        ultimately show ?thesis
          using "2.IH"(1) [OF None \<open>normalize_query X db (replace_tag_with_table v) = Inr v'\<close> Inr]
          by blast
      qed
    qed
  qed
qed

lemma register_views_registers:
  "register_views X db d = (None, db') \<Longrightarrow> k \<in> set (map fst d) \<Longrightarrow> get_table db' k \<noteq> None"
proof (induction X db d rule: register_views.induct)
  case (1 X db)
  then show ?case by simp
next
  case (2 X db k' v items)
  show ?case
  proof (cases "get_table db k'")
    case (Some t)
    with "2.prems"(1) have r: "register_views X db items = (None, db')" by simp
    show ?thesis
    proof (cases "k = k'")
      case True
      from Some have "get_table db k \<noteq> None" by (simp add: True)
      with r show ?thesis by (rule register_views_keeps)
    next
      case False
      with "2.prems"(2) have "k \<in> set (map fst items)" by simp
      with "2.IH"(2) [OF Some r] show ?thesis by blast
    qed
  next
    case None
    from None "2.prems"(1) obtain v' where n: "normalize_query X db (replace_tag_with_table v) = Inr v'"
      by (cases "normalize_query X db (replace_tag_with_table v)") auto
    from None n "2.prems"(1) obtain db1 where a: "add_view X db k' v' = Inr db1"
      by (cases "add_view X db k' v'") auto
    from None n a "2.prems"(1) have r: "register_views X db1 items = (None, db')" by simp
    show ?thesis
    proof (cases "k = k'")
      case True
      from add_view_registers [OF a] have "get_table db1 k \<noteq> None" by (simp add: True)
      with r show ?thesis by (rule register_views_keeps)
    next
      case False
      with "2.prems"(2) have "k \<in> set (map fst items)" by simp
      with "2.IH"(1) [OF None n a r] show ?thesis by blast
    qed
  qed
qed

lemma register_views_skip:
  "\<forall>k\<in>set (map fst d). get_table db k \<noteq> None \<Longrightarrow> register_views X db d = (None, db)"
  by (induction X db d rule: register_views.induct) auto

text \<open>
  Claim C6.  A tag that the store already knows is skipped: when every tag of the
  dictionary is registered, the loop of \<open>generate_reply\<close> returns the store as it
  is.  Hence registration is idempotent: running the loop again on the store it has
  produced registers nothing and changes nothing, whatever the fragment texts are.
\<close>

theorem register_views_idempotent:
  "((\<forall>k\<in>set (map fst sql_dict). get_table db k \<noteq> None) \<longrightarrow>
      register_views X db sql_dict = (None, db)) \<and>
   (register_views X db sql_dict = (None, db') \<longrightarrow>
      register_views X db' sql_dict = (None, db'))"
proof (intro conjI impI)
  assume "\<forall>k\<in>set (map fst sql_dict). get_table db k \<noteq> None"
  then show "register_views X db sql_dict = (None, db)" by (rule register_views_skip)
next
  assume r: "register_views X db sql_dict = (None, db')"
  have "\<forall>k\<in>set (map fst sql_dict). get_table db' k \<noteq> None"
    using register_views_registers [OF r] by blast
  then show "register_views X db' sql_dict = (None, db')" by (rule register_views_skip)
qed

theorem register_views_idempotent_witness:
  "register_views example_externals orders_db [(''sql1'', ''SELECT * FROM orders'')] =
     (None, orders_db\<lparr>views := [(''sql1'', ''SELECT * FROM orders'')]\<rparr>) \<and>
   get_table (orders_db\<lparr>views := [(''sql1'', ''SELECT * FROM orders'')]\<rparr>) ''sql1'' \<noteq> None \<and>
   register_views example_externals (orders_db\<lparr>views := [(''sql1'', ''SELECT * FROM orders'')]\<rparr>)
     [(''sql1'', ''SELECT * FROM orders'')] =
     (None, orders_db\<lparr>views := [(''sql1'', ''SELECT * FROM orders'')]\<rparr>)"
proof -
  let ?d = "[(''sql1'', ''SELECT * FROM orders'')]"
  let ?db' = "orders_db\<lparr>views := [(''sql1'', ''SELECT * FROM orders'')]\<rparr>"
  have g: "get_table ?db' ''sql1'' \<noteq> None"
    by (simp add: get_table_def orders_db_def)
  have n: "get_table orders_db ''sql1'' = None"
    by (simp add: get_table_def orders_db_def)
  have t: "replace_tag_with_table ''SELECT * FROM orders'' = ''SELECT * FROM orders''"
    by code_simp
  have a: "add_view example_externals orders_db ''sql1'' ''SELECT * FROM orders'' = Inr ?db'"
    by (simp add: add_view_def example_externals_def orders_db_def)
  have r: "register_views example_externals orders_db ?d = (None, ?db')"
    using n t a by (simp add: example_externals_def)
  from g have "\<forall>k\<in>set (map fst ?d). get_table ?db' k \<noteq> None" by simp
  with register_views_idempotent [of ?d ?db' example_externals ?db']
    register_views_idempotent [of ?d orders_db example_externals ?db'] r g
  show ?thesis by blast
qed

section \<open>Properties of the commit function\<close>

subsection \<open>A payload that does not decode\<close>

text \<open>
  Claim C3.  When \<open>json.loads\<close> fails on the payload, also on the body of a fenced
  block, the handler sets the error message and the function goes on to
  \<open>content.items()\<close> with \<open>content\<close> still the message text, so that
  \<open>AttributeError\<close> leaves the function and no correction message is returned.  A
  message with the fence marker but without a complete fenced block leaves it with
  \<open>IndexError\<close>.
\<close>

theorem malformed_payload_raises:
  "(messages \<noteq> [] \<and> json_content_of (content (last messages)) = Inr j \<and>
      json_loads X j = Inl e \<longrightarrow>
      parse_rename_and_update_db X messages agent_name db can_reask_again = Inl AttributeError) \<and>
   (messages \<noteq> [] \<and> contains ''```json'' (content (last messages)) \<and>
      findall_fences (content (last messages)) = [] \<longrightarrow>
      parse_rename_and_update_db X messages agent_name db can_reask_again = Inl IndexError)"
  by (simp add: parse_rename_and_update_db_def json_content_of_def items_def Let_def)

theorem malformed_payload_raises_witness:
  "json_content_of ''I will rename cust_id.'' = Inr ''I will rename cust_id.'' \<and>
   json_loads example_renamer_externals ''I will rename cust_id.'' =
     Inl ''Expecting value: line 1 column 1 (char 0)'' \<and>
   parse_rename_and_update_db example_renamer_externals [proposal ''I will rename cust_id.'']
     ''SchemaRenamer'' orders_db True = Inl AttributeError \<and>
   json_content_of (fenced ''orders: cust_id'') = Inr ''orders: cust_id'' \<and>
   json_loads example_renamer_externals ''orders: cust_id'' =
     Inl ''Expecting value: line 1 column 1 (char 0)'' \<and>
   parse_rename_and_update_db example_renamer_externals [proposal (fenced ''orders: cust_id'')]
     ''SchemaRenamer'' orders_db True = Inl AttributeError \<and>
   contains ''```json'' ''```json {}```'' \<and> findall_fences ''```json {}```'' = [] \<and>
   parse_rename_and_update_db example_renamer_externals [proposal ''```json {}```'']
     ''SchemaRenamer'' orders_db True = Inl IndexError"
proof -
  have c1: "content (last [proposal ''I will rename cust_id.'']) = ''I will rename cust_id.''"
    and c2: "content (last [proposal (fenced ''orders: cust_id'')]) = fenced ''orders: cust_id''"
    and c3: "content (last [proposal ''```json {}```'']) = ''```json {}```''"
    by (simp_all add: proposal_def new_message_def)
  have j1: "json_content_of ''I will rename cust_id.'' = Inr ''I will rename cust_id.''"
    by code_simp
  have j2: "json_content_of (fenced ''orders: cust_id'') = Inr ''orders: cust_id''"
    by code_simp
  have l1: "json_loads example_renamer_externals ''I will rename cust_id.'' =
     Inl ''Expecting value: line 1 column 1 (char 0)''"
    by code_simp
  have l2: "json_loads example_renamer_externals ''orders: cust_id'' =
     Inl ''Expecting value: line 1 column 1 (char 0)''"
    by code_simp
  have f3: "contains ''```json'' ''```json {}```''" by code_simp
  have e3: "findall_fences ''```json {}```'' = []" by code_simp
  from malformed_payload_raises
      [of "[proposal ''I will rename cust_id.'']" "''I will rename cust_id.''"
        example_renamer_externals _ "''SchemaRenamer''" orders_db True]
    c1 j1 l1
  have r1: "parse_rename_and_update_db example_renamer_externals
      [proposal ''I will rename cust_id.''] ''SchemaRenamer'' orders_db True = Inl AttributeError"
    by simp
  from malformed_payload_raises
      [of "[proposal (fenced ''orders: cust_id'')]" "''orders: cust_id''"
        example_renamer_externals _ "''SchemaRenamer''" orders_db True]
    c2 j2 l2
  have r2: "parse_rename_and_update_db example_renamer_externals
      [proposal (fenced ''orders: cust_id'')] ''SchemaRenamer'' orders_db True = Inl AttributeError"
    by simp
  from malformed_payload_raises
      [of "[proposal ''```json {}```'']" _ example_renamer_externals _ "''SchemaRenamer''"
        orders_db True]
    c3 f3 e3
  have r3: "parse_rename_and_update_db example_renamer_externals
      [proposal ''```json {}```''] ''SchemaRenamer'' orders_db True = Inl IndexError"
    by simp
  from j1 j2 l1 l2 f3 e3 r1 r2 r3 show ?thesis by blast
qed

subsection \<open>Duplicate target names\<close>



lemma length_remdups_distinct: "length (remdups vs) = length vs \<longleftrightarrow> distinct vs"
  by (metis length_remdups_eq remdups_id_iff_distinct)


lemma check_table_nodup:
  assumes "distinct (map snd m)"
  shows "check_table em (t, m) = em"
proof -
  from assms have "length (remdups (map snd m)) = length (map snd m)"
    by (simp only: length_remdups_distinct)
  then show ?thesis unfolding check_table_def Let_def by (simp del: length_map)
qed


lemma foldl_check_table_none:
  "\<forall>(t, m)\<in>set its. distinct (map snd m) \<Longrightarrow> foldl check_table em its = em"
  by (induction its arbitrary: em) (auto simp: check_table_nodup)











subsection \<open>Foreign keys after a commit\<close>

text \<open>
  Claim C5.  The store of the scenarios has one foreign key whose ends differ in name.
  A mapping that leaves it so is rejected, with a text that tells the agent to output
  the same remapping when the mismatch cannot be avoided; the same mapping, resubmitted
  after that rejection, is rejected again with the same text, whatever
  \<open>can_reask_again\<close> is.  The function reads the last message only and has no way
  to accept an acknowledged mismatch.
\<close>

theorem resubmitted_mapping_rejected_again:
  "get_non_matching_fks orders_db = [((''orders'', ''cust_id''), (''customers'', ''id''))] \<and>
   parse_rename_and_update_db example_renamer_externals [proposal (fenced mismatch_payload)]
     ''SchemaRenamer'' orders_db True = Inr (fk_rejection, orders_db) \<and>
   requires_response fk_rejection \<and>
   contains ''output the same remapping'' (content fk_rejection) \<and>
   parse_rename_and_update_db example_renamer_externals
     [proposal (fenced mismatch_payload), fk_rejection, proposal (fenced mismatch_payload)]
     ''SchemaRenamer'' orders_db True = Inr (fk_rejection, orders_db) \<and>
   parse_rename_and_update_db example_renamer_externals
     [proposal (fenced mismatch_payload), fk_rejection, proposal (fenced mismatch_payload)]
     ''SchemaRenamer'' orders_db False = Inr (fk_rejection, orders_db)"
  by code_simp

section \<open>Properties of the message histories\<close>

lemma add_message_apply:
  "add_message h a r m p = h p @ (if p = a then [m\<lparr>role := r\<rparr>] else [])"
  by (simp add: add_message_def)

lemma sql_send_history:
  "\<exists>ext. agent_messages (snd (sql_send st message recipient)) p = agent_messages st p @ ext"
  by (cases message) (simp_all add: sql_send_def add_message_apply)

lemma sql_receive_history:
  "\<exists>ext. agent_messages (snd (sql_receive X L tok st message sender)) p =
     agent_messages st p @ ext"
proof -
  define h where "h = add_message (agent_messages st) sender ''user'' message"
  define c where "c = completion L (agent_database st) (get_messages h sender)"
  obtain res db' where g: "generate_reply X tok (agent_database st) c = (res, db')"
    by (cases "generate_reply X tok (agent_database st) c") auto
  have hp: "\<exists>ext. h p = agent_messages st p @ ext"
    by (simp add: h_def add_message_apply)
  show ?thesis
  proof (cases res)
    case (Inl e)
    with g hp show ?thesis
      by (simp add: sql_receive_def Let_def h_def [symmetric] c_def [symmetric])
  next
    case (Inr reply)
    from sql_send_history [of "\<lparr>agent_messages = h, agent_database = db'\<rparr>" "Some reply" sender p]
    obtain ext where "agent_messages (snd (sql_send \<lparr>agent_messages = h, agent_database = db'\<rparr>
        (Some reply) sender)) p = h p @ ext" by auto
    with hp Inr g show ?thesis
      by (auto simp: sql_receive_def Let_def h_def [symmetric] c_def [symmetric])
  qed
qed

lemma sql_step_history:
  "\<exists>ext. agent_messages (sql_step X L tok st ev) p = agent_messages st p @ ext"
  by (cases ev) (simp_all add: sql_step_def sql_send_history sql_receive_history)

lemma sql_run_history:
  "\<exists>ext. agent_messages (foldl (sql_step X L tok) st evs) p = agent_messages st p @ ext"
proof (induction evs arbitrary: st)
  case Nil
  then show ?case by simp
next
  case (Cons ev evs)
  from sql_step_history [of X L tok st ev p] obtain e1
    where "agent_messages (sql_step X L tok st ev) p = agent_messages st p @ e1" by blast
  moreover from Cons.IH [of "sql_step X L tok st ev"] obtain e2
    where "agent_messages (foldl (sql_step X L tok) (sql_step X L tok st ev) evs) p =
      agent_messages (sql_step X L tok st ev) p @ e2" by blast
  ultimately show ?case by simp
qed

lemma content_update_self: "\<exists>c. (x::agent_message) = x\<lparr>content := c\<rparr>"
proof
  show "x = x\<lparr>content := content x\<rparr>" by simp
qed

lemma first_content_only_refl: "first_content_only xs xs"
  by (cases xs) (simp_all add: first_content_only_def content_update_self)

lemma first_content_only_append: "first_content_only xs (xs @ ext)"
  by (cases xs) (simp_all add: first_content_only_def content_update_self)

lemma first_content_only_rewrite: "first_content_only (m # rest) (m\<lparr>content := c\<rparr> # rest)"
  by (auto simp: first_content_only_def)

lemma first_content_only_trans:
  assumes "first_content_only xs ys" and "first_content_only ys zs"
  shows "first_content_only xs zs"
proof -
  from assms have len: "length xs \<le> length zs" by (simp add: first_content_only_def)
  from assms obtain e1 e2 where "drop 1 ys = drop 1 xs @ e1" "drop 1 zs = drop 1 ys @ e2"
    by (auto simp: first_content_only_def)
  then have d: "\<exists>ext. drop 1 zs = drop 1 xs @ ext" by simp
  have "xs = [] \<or> (\<exists>c. hd zs = (hd xs)\<lparr>content := c\<rparr>)"
  proof (cases "xs = []")
    case True
    then show ?thesis by simp
  next
    case False
    with assms(1) have "\<exists>c. hd ys = (hd xs)\<lparr>content := c\<rparr>" and yne: "ys \<noteq> []"
      by (auto simp: first_content_only_def)
    then obtain c1 where c1: "hd ys = (hd xs)\<lparr>content := c1\<rparr>" by blast
    from yne assms(2) have "\<exists>c. hd zs = (hd ys)\<lparr>content := c\<rparr>"
      by (auto simp: first_content_only_def)
    then obtain c2 where "hd zs = (hd ys)\<lparr>content := c2\<rparr>" by blast
    with c1 have "hd zs = (hd xs)\<lparr>content := c2\<rparr>" by simp
    then show ?thesis by blast
  qed
  with len d show ?thesis by (simp add: first_content_only_def)
qed

lemma renamer_send_history:
  "first_content_only (agent_messages st p)
     (agent_messages (snd (renamer_send st message recipient)) p)"
  by (cases message)
    (simp_all add: renamer_send_def add_message_apply first_content_only_refl
      first_content_only_append)

lemma renamer_receive_history:
  "first_content_only (agent_messages st p)
     (agent_messages (snd (renamer_receive L st message sender)) p)"
proof -
  define h where "h = add_message (agent_messages st) sender ''user'' message"
  have hp: "first_content_only (agent_messages st p) (h p)"
    by (simp add: h_def add_message_apply first_content_only_refl first_content_only_append)
  show ?thesis
  proof (cases "renamer_generate_reply L (agent_database st) (get_messages h sender)")
    case (Inl e)
    with hp show ?thesis by (simp add: renamer_receive_def Let_def h_def [symmetric])
  next
    case (Inr q)
    obtain reply ms' where q: "q = (reply, ms')" by (cases q)
    from Inr q obtain m0 rest c where l: "h sender = m0 # rest"
      and ms': "ms' = m0\<lparr>content := c\<rparr> # rest"
      by (auto simp: renamer_generate_reply_def get_messages_def Let_def split: list.splits)
    let ?st1 = "st\<lparr>agent_messages := h(sender := ms')\<rparr>"
    have "first_content_only (h p) ((h(sender := ms')) p)"
      using l ms' by (auto simp: first_content_only_refl first_content_only_rewrite)
    with hp have a: "first_content_only (agent_messages st p) (agent_messages ?st1 p)"
      by (auto intro: first_content_only_trans)
    have "first_content_only (agent_messages ?st1 p)
        (agent_messages (snd (renamer_send ?st1 (Some reply) sender)) p)"
      by (rule renamer_send_history)
    with a have "first_content_only (agent_messages st p)
        (agent_messages (snd (renamer_send ?st1 (Some reply) sender)) p)"
      by (rule first_content_only_trans)
    with Inr q show ?thesis by (simp add: renamer_receive_def Let_def h_def [symmetric])
  qed
qed

lemma renamer_step_history:
  "first_content_only (agent_messages st p) (agent_messages (renamer_step L st ev) p)"
  by (cases ev) (simp_all add: renamer_step_def renamer_send_history renamer_receive_history)

lemma renamer_run_history:
  "first_content_only (agent_messages st p) (agent_messages (foldl (renamer_step L) st evs) p)"
proof (induction evs arbitrary: st)
  case Nil
  then show ?case by (simp add: first_content_only_refl)
next
  case (Cons ev evs)
  from renamer_step_history [of st p L ev] Cons.IH [of "renamer_step L st ev"]
  show ?case by (auto intro: first_content_only_trans)
qed

lemma renamer_generate_reply_Cons:
  "renamer_generate_reply L db (m0 # rest) =
     Inr ((new_message ''assistant''
             (completion L db
                (m0\<lparr>content := ''My schema is'' @ [CHR 0x0A] @ serialize_as_list L db\<rparr> # rest))
             ''SchemaRenamer'')\<lparr>requires_execution := True\<rparr>,
          m0\<lparr>content := ''My schema is'' @ [CHR 0x0A] @ serialize_as_list L db\<rparr> # rest)"
  by (simp add: renamer_generate_reply_def Let_def)

lemma renamer_receive_rewrites:
  "\<exists>reply. agent_messages (snd (renamer_receive L st message sender)) sender =
     (hd (agent_messages st sender @ [message\<lparr>role := ''user''\<rparr>]))
       \<lparr>content := ''My schema is'' @ [CHR 0x0A] @ serialize_as_list L (agent_database st)\<rparr> #
     tl (agent_messages st sender @ [message\<lparr>role := ''user''\<rparr>]) @ [reply]"
proof -
  define l where "l = agent_messages st sender @ [message\<lparr>role := ''user''\<rparr>]"
  have ne: "l \<noteq> []" by (simp add: l_def)
  then obtain m0 rest where c: "l = m0 # rest" by (cases l) auto
  define h where "h = add_message (agent_messages st) sender ''user'' message"
  define S where "S = ''My schema is'' @ [CHR 0x0A] @ serialize_as_list L (agent_database st)"
  define reply where "reply = (new_message ''assistant''
      (completion L (agent_database st) (m0\<lparr>content := S\<rparr> # rest))
      ''SchemaRenamer'')\<lparr>requires_execution := True\<rparr>"
  have g: "get_messages h sender = m0 # rest"
    using c by (simp add: get_messages_def add_message_def l_def h_def)
  have r: "renamer_receive L st message sender =
      renamer_send (st\<lparr>agent_messages := h(sender := m0\<lparr>content := S\<rparr> # rest)\<rparr>)
        (Some reply) sender"
    unfolding renamer_receive_def Let_def h_def [symmetric] g renamer_generate_reply_Cons
      S_def [symmetric] reply_def [symmetric]
    by simp
  have "agent_messages (snd (renamer_receive L st message sender)) sender =
      m0\<lparr>content := S\<rparr> # rest @
      [reply\<lparr>receiving_agent := Some sender, role := ''assistant''\<rparr>]"
    unfolding r by (simp add: renamer_send_def add_message_def)
  then show ?thesis
    unfolding l_def [symmetric] c S_def by auto
qed

text \<open>
  Claim C7, as the source has it.  Over any sequence of \<open>send\<close> and \<open>receive\<close>
  operations, the history the SQL generator keeps for a partner is the history it had
  with messages appended.  The history the schema cleaner keeps for a partner never gets
  shorter, every message after the first stays as it was, and the first message keeps
  every field but its content.  Every call of the schema cleaner's \<open>generate_reply\<close>
  on a list that is not empty replaces the content of the first message of the list by
  the text of the schema, and so every \<open>receive\<close> of the schema cleaner leaves the
  partner's history with that content in its first message, followed by the messages it
  had, the message received and the reply.
\<close>

theorem history_grows:
  "(\<exists>ext. agent_messages (foldl (sql_step X L termination_message) st evs) p =
      agent_messages st p @ ext) \<and>
   length (agent_messages st p) \<le> length (agent_messages (foldl (renamer_step L) st evs) p) \<and>
   (\<exists>ext. drop 1 (agent_messages (foldl (renamer_step L) st evs) p) =
      drop 1 (agent_messages st p) @ ext) \<and>
   (agent_messages st p = [] \<or>
    (\<exists>c. hd (agent_messages (foldl (renamer_step L) st evs) p) =
       (hd (agent_messages st p))\<lparr>content := c\<rparr>)) \<and>
   renamer_generate_reply L db (m0 # rest) =
     Inr ((new_message ''assistant''
             (completion L db
                (m0\<lparr>content := ''My schema is'' @ [CHR 0x0A] @ serialize_as_list L db\<rparr> # rest))
             ''SchemaRenamer'')\<lparr>requires_execution := True\<rparr>,
          m0\<lparr>content := ''My schema is'' @ [CHR 0x0A] @ serialize_as_list L db\<rparr> # rest) \<and>
   (\<exists>reply. agent_messages (renamer_step L st (Receive message sender)) sender =
      (hd (agent_messages st sender @ [message\<lparr>role := ''user''\<rparr>]))
        \<lparr>content := ''My schema is'' @ [CHR 0x0A] @ serialize_as_list L (agent_database st)\<rparr> #
      tl (agent_messages st sender @ [message\<lparr>role := ''user''\<rparr>]) @ [reply])"
proof -
  have a: "\<exists>reply. agent_messages (renamer_step L st (Receive message sender)) sender =
      (hd (agent_messages st sender @ [message\<lparr>role := ''user''\<rparr>]))
        \<lparr>content := ''My schema is'' @ [CHR 0x0A] @ serialize_as_list L (agent_database st)\<rparr> #
      tl (agent_messages st sender @ [message\<lparr>role := ''user''\<rparr>]) @ [reply]"
    using renamer_receive_rewrites [of L st message sender] by (simp add: renamer_step_def)
  from sql_run_history [of X L termination_message st evs p]
    renamer_run_history [of st p L evs] renamer_generate_reply_Cons [of L db m0 rest] a
  show ?thesis by (simp add: first_content_only_def)
qed

theorem history_grows_witness:
  "agent_messages
     (foldl (sql_step example_externals example_llm ''<exit>'') waiting_agent
        [Receive follow_up ''User'']) ''User'' =
     agent_messages waiting_agent ''User'' @ [follow_up] \<and>
   agent_messages waiting_agent ''User'' = [clean_request] \<and>
   length (agent_messages (foldl (renamer_step example_llm) waiting_agent
     [Receive follow_up ''User'']) ''User'') = 3 \<and>
   hd (agent_messages (foldl (renamer_step example_llm) waiting_agent
     [Receive follow_up ''User'']) ''User'') =
     clean_request\<lparr>content := ''My schema is'' @ [CHR 0x0A] @ ''orders;customers;''\<rparr>"
proof -
  have a: "agent_messages
     (foldl (sql_step example_externals example_llm ''<exit>'') waiting_agent
        [Receive follow_up ''User'']) ''User'' =
     agent_messages waiting_agent ''User'' @ [follow_up]"
    by code_simp
  have b: "agent_messages waiting_agent ''User'' = [clean_request]"
    by code_simp
  have c: "length (agent_messages (foldl (renamer_step example_llm) waiting_agent
     [Receive follow_up ''User'']) ''User'') = 3"
    by code_simp
  have d: "hd (agent_messages (foldl (renamer_step example_llm) waiting_agent
     [Receive follow_up ''User'']) ''User'') =
     clean_request\<lparr>content := ''My schema is'' @ [CHR 0x0A] @ ''orders;customers;''\<rparr>"
    by code_simp
  from history_grows [of example_externals example_llm "''<exit>''" waiting_agent
      "[Receive follow_up ''User'']" "''User''"] a b c d
  show ?thesis by blast
qed

text \<open>
  The claim as it was written fails: when the schema cleaner receives a second message
  from a partner, the content of the first message it has stored for that partner,
  \<open>clean schema\<close>, is replaced by the text of the schema.
\<close>

theorem renamer_rewrites_first_message:
  "agent_messages waiting_agent ''User'' = [clean_request] \<and>
   content (hd (agent_messages waiting_agent ''User'')) = ''clean schema'' \<and>
   content (hd (agent_messages (renamer_step example_llm waiting_agent
      (Receive follow_up ''User'')) ''User'')) =
     ''My schema is'' @ [CHR 0x0A] @ ''orders;customers;'' \<and>
   content (hd (agent_messages (renamer_step example_llm waiting_agent
      (Receive follow_up ''User'')) ''User'')) \<noteq>
     content (hd (agent_messages waiting_agent ''User''))"
  by code_simp

end
